theory Spec2Isabelle
  imports Main "HOL-Library.Word"
begin

section \<open>The slog-console handler: strings, runes and the library it calls\<close>

text \<open>
  The repository holds two drafts of the console handler. The older one
  (\<^verbatim>\<open>handler.go\<close>, on \<^verbatim>\<open>golang.org/x/exp/slog\<close>) keeps everything in the handler;
  the newer one (the handler of \<^verbatim>\<open>log/slog\<close>, with its composer and the buffer pool)
  splits the line composition into a composer. Both are embedded here: the definitions of
  the older draft carry the prefix \<open>old_\<close>, the functions the two drafts share word for
  word (\<open>needsQuoting\<close>, \<open>appendString\<close>, \<open>safeSet\<close>) are embedded once.

  A Go string is a sequence of bytes: \<^typ>\<open>string\<close>, a list of 8-bit characters.
  A rune is a code point, a natural number.
\<close>

type_synonym rune = nat

definition byte_of :: "char \<Rightarrow> nat" where
  "byte_of c = of_char c"

definition dquote :: char where
  "dquote = CHR 0x22"

definition bslash :: char where
  "bslash = CHR 0x5C"

subsection \<open>Package \<^verbatim>\<open>unicode/utf8\<close>\<close>

definition RuneError :: rune where
  "RuneError = 0xFFFD"

definition RuneSelf :: nat where
  "RuneSelf = 0x80"

definition MaxRune :: rune where
  "MaxRune = 0x10FFFF"

text \<open>
  \<^verbatim>\<open>utf8.DecodeRuneInString\<close>: the first rune of the string and its width in bytes;
  \<open>(RuneError, 0)\<close> on the empty string and \<open>(RuneError, 1)\<close> where the encoding is
  invalid (a stray continuation byte, an over-long form, a surrogate, a value above
  \<open>MaxRune\<close>, a truncated sequence). The library's tables \<^verbatim>\<open>first\<close> and
  \<^verbatim>\<open>acceptRanges\<close> are written out as the ranges they hold.
\<close>

fun DecodeRuneInString :: "string \<Rightarrow> rune \<times> nat" where
  "DecodeRuneInString [] = (RuneError, 0)"
| "DecodeRuneInString (c0 # rest) =
     (let s0 = byte_of c0 in
      if s0 < 0x80 then (s0, 1)
      else if s0 < 0xC2 \<or> 0xF4 < s0 then (RuneError, 1)
      else
        let sz = (if s0 < 0xE0 then 2 else if s0 < 0xF0 then 3 else 4 :: nat);
            lo = (if s0 = 0xE0 then 0xA0 else if s0 = 0xF0 then 0x90 else 0x80 :: nat);
            hi = (if s0 = 0xED then 0x9F else if s0 = 0xF4 then 0x8F else 0xBF :: nat)
        in if length (c0 # rest) < sz then (RuneError, 1)
           else
             let s1 = byte_of (rest ! 0) in
             if s1 < lo \<or> hi < s1 then (RuneError, 1)
             else if sz \<le> 2 then ((s0 mod 0x20) * 0x40 + s1 mod 0x40, 2)
             else
               let s2 = byte_of (rest ! 1) in
               if s2 < 0x80 \<or> 0xBF < s2 then (RuneError, 1)
               else if sz \<le> 3 then
                 ((s0 mod 0x10) * 0x1000 + (s1 mod 0x40) * 0x40 + s2 mod 0x40, 3)
               else
                 let s3 = byte_of (rest ! 2) in
                 if s3 < 0x80 \<or> 0xBF < s3 then (RuneError, 1)
                 else ((s0 mod 8) * 0x40000 + (s1 mod 0x40) * 0x1000
                         + (s2 mod 0x40) * 0x40 + s3 mod 0x40, 4))"

text \<open>\<^verbatim>\<open>utf8.AppendRune\<close>, as the bytes it appends.\<close>

definition EncodeRune :: "rune \<Rightarrow> string" where
  "EncodeRune r =
     (if r \<le> 0x7F then [char_of r]
      else if r \<le> 0x7FF then [char_of (0xC0 + r div 0x40), char_of (0x80 + r mod 0x40)]
      else if MaxRune < r \<or> (0xD800 \<le> r \<and> r \<le> 0xDFFF) then
        [CHR 0xEF, CHR 0xBF, CHR 0xBD]
      else if r \<le> 0xFFFF then
        [char_of (0xE0 + r div 0x1000), char_of (0x80 + (r div 0x40) mod 0x40),
         char_of (0x80 + r mod 0x40)]
      else
        [char_of (0xF0 + r div 0x40000), char_of (0x80 + (r div 0x1000) mod 0x40),
         char_of (0x80 + (r div 0x40) mod 0x40), char_of (0x80 + r mod 0x40)])"

definition ValidRune :: "rune \<Rightarrow> bool" where
  "ValidRune r = (r < 0xD800 \<or> (0xDFFF < r \<and> r \<le> MaxRune))"

subsection \<open>Package \<^verbatim>\<open>slog\<close>: kinds, values, attributes\<close>

text \<open>
  \<^verbatim>\<open>type Kind int\<close> with ten declared constants; \<open>KindUnknown k\<close> stands for any other
  value of the type, which no constructor of \<^verbatim>\<open>slog\<close> produces and which the switch
  in \<^verbatim>\<open>appendValue\<close> sends to its default branch.
\<close>

datatype any = AnyNil | AnyErr string | AnyObj nat

type_synonym Time = int

datatype Kind =
    KindAny | KindBool | KindDuration | KindFloat64 | KindInt64 | KindString
  | KindTime | KindUint64 | KindGroup | KindLogValuer | KindUnknown int

text \<open>
  A value is a tagged union. An \<open>AnyValue\<close> holds an opaque Go value (\<open>AnyNil\<close> is
  the nil interface, the zero \<^verbatim>\<open>Value\<close>); a \<open>LogValuerValue v\<close> holds a
  \<^verbatim>\<open>LogValuer\<close> whose \<^verbatim>\<open>LogValue()\<close> returns \<open>v\<close>, a \<open>LogValuerPanics n\<close>
  holds the object \<open>n\<close> whose \<^verbatim>\<open>LogValue()\<close> panics; floats are kept as their 64
  bits, durations as nanoseconds, times as an instant (0 is the zero time).
\<close>

datatype Value =
    AnyValue any
  | BoolValue bool
  | DurationValue int
  | Float64Value "64 word"
  | Int64Value "64 word"
  | StringValue string
  | TimeValue Time
  | Uint64Value "64 word"
  | GroupValue "Attr list"
  | LogValuerValue Value
  | LogValuerPanics nat
  | UnknownValue int
and Attr = Attr (Key: string) (Val: Value)

subsection \<open>The library as a parameter\<close>

text \<open>
  What the handler takes from the Go library and runtime and the repository does not
  define: the Unicode tables beyond Latin-1, the formatting of floats, durations, times
  and opaque values, the operating system's name, the resolution of a program counter
  and the error a writer answers a write with. The record is a parameter of every
  function that reaches one of them.
\<close>

record golib =
  White_Space :: "rune \<Rightarrow> bool"
  PrintRanges :: "rune \<Rightarrow> bool"
  FormatFloat :: "64 word \<Rightarrow> string"
  Duration_String :: "int \<Rightarrow> string"
  Time_Format :: "Time \<Rightarrow> string \<Rightarrow> string"
  Time_String :: "Time \<Rightarrow> string"
  Sprint_obj :: "nat \<Rightarrow> string"
  Sprint_group :: "Attr list \<Rightarrow> string"
  Sprint_valuer :: "Value \<Rightarrow> string"
  Type_String :: "Value \<Rightarrow> string"
  Stack_text :: "Value \<Rightarrow> string"
  Write_error :: "nat \<Rightarrow> string \<Rightarrow> string option"
  GOOS :: string
  Frame_File :: "nat \<Rightarrow> string"
  Frame_Line :: "nat \<Rightarrow> int"

text \<open>
  \<^verbatim>\<open>unicode.IsSpace\<close> and \<^verbatim>\<open>unicode.IsPrint\<close>: on Latin-1 the library decides
  by a fixed table, written out here; beyond it by the range tables.
\<close>

definition unicode_IsSpace :: "golib \<Rightarrow> rune \<Rightarrow> bool" where
  "unicode_IsSpace lib r =
     (if r \<le> 0xFF then r \<in> {0x09, 0x0A, 0x0B, 0x0C, 0x0D, 0x20, 0x85, 0xA0}
      else White_Space lib r)"

definition unicode_IsPrint :: "golib \<Rightarrow> rune \<Rightarrow> bool" where
  "unicode_IsPrint lib r =
     (if r \<le> 0xFF then (0x20 \<le> r \<and> r \<le> 0x7E) \<or> (0xA1 \<le> r \<and> r \<noteq> 0xAD)
      else PrintRanges lib r)"

subsection \<open>\<^verbatim>\<open>safeSet\<close> and \<^verbatim>\<open>needsQuoting\<close>\<close>

text \<open>
  The table \<^verbatim>\<open>safeSet\<close> lists the bytes below \<open>RuneSelf\<close> it holds true for; the
  entries it leaves out (0 to 31) and the three it sets to false (space, the double
  quote, the backslash) are false.
\<close>

definition safeSet :: "char \<Rightarrow> bool" where
  "safeSet b = (b \<in> set (''!#$%&'' @ [CHR 0x27] @ ''()*+,-./0123456789:;<=>?@''
       @ ''ABCDEFGHIJKLMNOPQRSTUVWXYZ['' @ '']^_'' @ [CHR 0x60]
       @ ''abcdefghijklmnopqrstuvwxyz{|}~'' @ [CHR 0x7F]))"

function needsQuoting_from :: "golib \<Rightarrow> string \<Rightarrow> bool" where
  "needsQuoting_from lib [] = False"
| "needsQuoting_from lib (b # rest) =
     (if byte_of b < RuneSelf then
        (if b \<noteq> bslash \<and> (b = CHR '' '' \<or> b = CHR ''='' \<or> \<not> safeSet b) then True
         else needsQuoting_from lib rest)
      else
        (case DecodeRuneInString (b # rest) of (r, width) \<Rightarrow>
           if r = RuneError \<or> unicode_IsSpace lib r \<or> \<not> unicode_IsPrint lib r then True
           else needsQuoting_from lib (drop width (b # rest))))"
  by pat_completeness auto

lemma DecodeRuneInString_width_pos:
  "DecodeRuneInString (b # rest) = (r, w) \<Longrightarrow> 0 < w"
  by (auto simp: Let_def split: if_splits)

declare DecodeRuneInString.simps(2) [simp del]

termination needsQuoting_from
  by (relation "measure (\<lambda>(lib, s). length s)")
     (auto dest: DecodeRuneInString_width_pos [OF sym])

definition needsQuoting :: "golib \<Rightarrow> string \<Rightarrow> bool" where
  "needsQuoting lib s = (if length s = 0 then True else needsQuoting_from lib s)"

subsection \<open>\<^verbatim>\<open>strconv.Quote\<close>\<close>

text \<open>
  \<^verbatim>\<open>strconv.AppendQuote(dst, s)\<close> appends \<^verbatim>\<open>strconv.Quote(s)\<close>: \<open>s\<close> between
  double quotes, the double quote and the backslash behind a backslash, printable runes
  as they are, the rest as \<^verbatim>\<open>\a \b \f \n \r \t \v\<close>, \<^verbatim>\<open>\xhh\<close>,
  \<^verbatim>\<open>\uhhhh\<close> or \<^verbatim>\<open>\Uhhhhhhhh\<close>.
\<close>

definition lowerhex :: "nat \<Rightarrow> char" where
  "lowerhex d = ''0123456789abcdef'' ! (d mod 16)"

definition hex2 :: "nat \<Rightarrow> string" where
  "hex2 b = [lowerhex (b div 0x10), lowerhex (b mod 0x10)]"

definition hex4 :: "nat \<Rightarrow> string" where
  "hex4 r = [lowerhex (r div 0x1000), lowerhex (r div 0x100), lowerhex (r div 0x10),
             lowerhex r]"

definition hex8 :: "nat \<Rightarrow> string" where
  "hex8 r = hex4 (r div 0x10000) @ hex4 r"

definition appendEscapedRune :: "golib \<Rightarrow> rune \<Rightarrow> string" where
  "appendEscapedRune lib r =
     (if r = byte_of dquote \<or> r = byte_of bslash then [bslash, char_of r]
      else if unicode_IsPrint lib r then EncodeRune r
      else if r = 0x07 then [bslash, CHR ''a'']
      else if r = 0x08 then [bslash, CHR ''b'']
      else if r = 0x0C then [bslash, CHR ''f'']
      else if r = 0x0A then [bslash, CHR ''n'']
      else if r = 0x0D then [bslash, CHR ''r'']
      else if r = 0x09 then [bslash, CHR ''t'']
      else if r = 0x0B then [bslash, CHR ''v'']
      else if r < 0x20 \<or> r = 0x7F then [bslash, CHR ''x''] @ hex2 r
      else if \<not> ValidRune r then [bslash, CHR ''u''] @ hex4 0xFFFD
      else if r < 0x10000 then [bslash, CHR ''u''] @ hex4 r
      else [bslash, CHR ''U''] @ hex8 r)"

function quote_from :: "golib \<Rightarrow> string \<Rightarrow> string" where
  "quote_from lib [] = []"
| "quote_from lib (c # cs) =
     (case (if RuneSelf \<le> byte_of c then DecodeRuneInString (c # cs) else (byte_of c, 1))
      of (r, width) \<Rightarrow>
        if width = 1 \<and> r = RuneError then
          [bslash, CHR ''x''] @ hex2 (byte_of c) @ quote_from lib (drop width (c # cs))
        else appendEscapedRune lib r @ quote_from lib (drop width (c # cs)))"
  by pat_completeness auto
termination
  by (relation "measure (\<lambda>(lib, s). length s)")
     (auto dest: DecodeRuneInString_width_pos [OF sym] split: if_splits)

definition Quote :: "golib \<Rightarrow> string \<Rightarrow> string" where
  "Quote lib s = [dquote] @ quote_from lib s @ [dquote]"

subsection \<open>Functions on values\<close>

fun Kind_of :: "Value \<Rightarrow> Kind" where
  "Kind_of (AnyValue _) = KindAny"
| "Kind_of (BoolValue _) = KindBool"
| "Kind_of (DurationValue _) = KindDuration"
| "Kind_of (Float64Value _) = KindFloat64"
| "Kind_of (Int64Value _) = KindInt64"
| "Kind_of (StringValue _) = KindString"
| "Kind_of (TimeValue _) = KindTime"
| "Kind_of (Uint64Value _) = KindUint64"
| "Kind_of (GroupValue _) = KindGroup"
| "Kind_of (LogValuerValue _) = KindLogValuer"
| "Kind_of (LogValuerPanics _) = KindLogValuer"
| "Kind_of (UnknownValue k) = KindUnknown k"

text \<open>
  \<^verbatim>\<open>Value.Resolve\<close>: call \<^verbatim>\<open>LogValue\<close> while the kind is \<^verbatim>\<open>KindLogValuer\<close>, at
  most \<^verbatim>\<open>maxLogValues\<close> = 100 times, then give up with the error
  \<^verbatim>\<open>fmt.Errorf("LogValue called too many times on Value of type %T", orig.Any())\<close>.
  A panic of \<^verbatim>\<open>LogValue\<close> is recovered into the error
  \<^verbatim>\<open>fmt.Errorf("LogValue panicked\n%s", stack(3, 5))\<close>. The name of the type and the
  text of the stack are the library's, given the value \<^verbatim>\<open>Resolve\<close> was called on.
\<close>

definition too_many_LogValue :: "golib \<Rightarrow> Value \<Rightarrow> Value" where
  "too_many_LogValue lib orig =
     AnyValue (AnyErr (''LogValue called too many times on Value of type ''
                         @ Type_String lib orig))"

definition LogValue_panicked :: "golib \<Rightarrow> Value \<Rightarrow> Value" where
  "LogValue_panicked lib orig =
     AnyValue (AnyErr (''LogValue panicked'' @ [CHR 0x0A] @ Stack_text lib orig))"

fun Resolve_loop :: "golib \<Rightarrow> Value \<Rightarrow> nat \<Rightarrow> Value \<Rightarrow> Value" where
  "Resolve_loop lib orig 0 v = too_many_LogValue lib orig"
| "Resolve_loop lib orig (Suc i) v =
     (case v of
        LogValuerValue w \<Rightarrow> Resolve_loop lib orig i w
      | LogValuerPanics n \<Rightarrow> LogValue_panicked lib orig
      | _ \<Rightarrow> v)"

definition Resolve :: "golib \<Rightarrow> Value \<Rightarrow> Value" where
  "Resolve lib v = Resolve_loop lib v 100 v"

text \<open>
  \<^verbatim>\<open>a.Equal(slog.Attr{})\<close>: \<^verbatim>\<open>Attr.Equal\<close> compares the keys and then the values
  with \<^verbatim>\<open>Value.Equal\<close>, which is false on different kinds and compares the held
  interface values on \<^verbatim>\<open>KindAny\<close>; the zero \<^verbatim>\<open>Attr\<close> has the empty key and the zero
  \<^verbatim>\<open>Value\<close>.
\<close>

definition zero_Attr :: Attr where
  "zero_Attr = Attr [] (AnyValue AnyNil)"

definition Attr_Equal_zero :: "Attr \<Rightarrow> bool" where
  "Attr_Equal_zero a =
     (Key a = Key zero_Attr \<and> Kind_of (Val a) = Kind_of (Val zero_Attr)
        \<and> Val a = Val zero_Attr)"

subsection \<open>Decimal numbers\<close>

definition digit :: "nat \<Rightarrow> char" where
  "digit d = ''0123456789'' ! (d mod 10)"

fun dec_nat :: "nat \<Rightarrow> string" where
  "dec_nat n = (if n < 10 then [digit n] else dec_nat (n div 10) @ [digit (n mod 10)])"

declare dec_nat.simps [simp del]

definition Itoa :: "int \<Rightarrow> string" where
  "Itoa i = (if i < 0 then CHR ''-'' # dec_nat (nat (- i)) else dec_nat (nat i))"

text \<open>The verb \<^verbatim>\<open>%+d\<close> of \<^verbatim>\<open>fmt\<close>.\<close>

definition fmt_plus_d :: "int \<Rightarrow> string" where
  "fmt_plus_d i = (if i < 0 then CHR ''-'' # dec_nat (nat (- i)) else CHR ''+'' # dec_nat (nat i))"

definition FormatBool :: "bool \<Rightarrow> string" where
  "FormatBool b = (if b then ''true'' else ''false'')"

subsection \<open>Levels\<close>

type_synonym Level = int

definition LevelDebug :: Level where "LevelDebug = -4"
definition LevelInfo :: Level where "LevelInfo = 0"
definition LevelWarn :: Level where "LevelWarn = 4"
definition LevelError :: Level where "LevelError = 8"

text \<open>\<^verbatim>\<open>Level.String\<close>: the name of the bracket and the signed offset in it.\<close>

definition Level_str :: "string \<Rightarrow> Level \<Rightarrow> string" where
  "Level_str base val = (if val = 0 then base else base @ fmt_plus_d val)"

definition Level_String :: "Level \<Rightarrow> string" where
  "Level_String l =
     (if l < LevelInfo then Level_str ''DEBUG'' (l - LevelDebug)
      else if l < LevelWarn then Level_str ''INFO'' (l - LevelInfo)
      else if l < LevelError then Level_str ''WARN'' (l - LevelWarn)
      else Level_str ''ERROR'' (l - LevelError))"

definition SourceKey :: string where
  "SourceKey = ''source''"

text \<open>\<^verbatim>\<open>fmt.Append(dst, x)\<close> on an opaque value and on a group, as the text appended.\<close>

definition Sprint_any :: "golib \<Rightarrow> any \<Rightarrow> string" where
  "Sprint_any lib x =
     (case x of AnyNil \<Rightarrow> ''<nil>'' | AnyErr m \<Rightarrow> m | AnyObj n \<Rightarrow> Sprint_obj lib n)"

section \<open>The store: byte arrays, slices, buffers, handlers\<close>

text \<open>
  A Go slice is a header (the address of its backing array, a length, a capacity); two
  slices with the same \<open>base\<close> share their bytes. The store maps addresses to backing
  arrays (each as long as its capacity), to the cells that hold a \<^verbatim>\<open>buffer\<close> (a slice
  header reached through a \<^verbatim>\<open>*buffer\<close>), and to handler objects. Address 0 is nil and
  \<open>nxt\<close> is the next address the allocator hands out.
\<close>

datatype error = Panic string

record slice =
  base :: nat
  slen :: nat
  scap :: nat

definition nil_slice :: slice where
  "nil_slice = \<lparr>base = 0, slen = 0, scap = 0\<rparr>"

record Options =
  AddSource :: bool
  Colorize :: "bool option"
  DropTime :: bool
  Level :: "Level option"
  ReplaceAttr :: "(string list \<Rightarrow> Attr \<Rightarrow> Attr) option"
  StringLevel :: "(Level \<Rightarrow> string) option"
  TimeFormat :: string

text \<open>The handler of the newer draft, and the handler of the older one.\<close>

record ConsoleHandler =
  opts :: Options
  groups :: "string list"
  preformatted :: slice
  prefix :: string
  mu :: nat
  out :: nat

record old_ConsoleHandler =
  old_opts :: Options
  old_preformatted :: slice
  old_prefix :: slice
  old_mu :: nat
  old_out :: nat

record heap =
  arrays :: "nat \<Rightarrow> string"
  bufs :: "nat \<Rightarrow> slice"
  handlers :: "nat \<Rightarrow> ConsoleHandler option"
  old_handlers :: "nat \<Rightarrow> old_ConsoleHandler option"
  bufPool :: "nat list"
  written :: "(nat \<times> string) list"
  nxt :: nat

subsection \<open>The runtime: \<^verbatim>\<open>make\<close>, \<^verbatim>\<open>append\<close>, \<^verbatim>\<open>copy\<close>\<close>

definition slice_bytes :: "heap \<Rightarrow> slice \<Rightarrow> string" where
  "slice_bytes st sl = take (slen sl) (arrays st (base sl))"

definition make_bytes :: "nat \<Rightarrow> nat \<Rightarrow> heap \<Rightarrow> slice \<times> heap" where
  "make_bytes n c st =
     (\<lparr>base = nxt st, slen = n, scap = c\<rparr>,
      st\<lparr>arrays := (arrays st)(nxt st := replicate c (CHR 0x00)), nxt := Suc (nxt st)\<rparr>)"

text \<open>
  \<^verbatim>\<open>append\<close> writes in place when the capacity suffices and moves to a new array
  otherwise. How much the runtime over-allocates is its own business; the model doubles.
\<close>

definition growcap :: "nat \<Rightarrow> nat \<Rightarrow> nat" where
  "growcap old needed = max needed (2 * old)"

definition go_append :: "slice \<Rightarrow> string \<Rightarrow> heap \<Rightarrow> slice \<times> heap" where
  "go_append sl bs st =
     (let n = slen sl + length bs in
      if n \<le> scap sl then
        (sl\<lparr>slen := n\<rparr>,
         st\<lparr>arrays := (arrays st)(base sl :=
               take (slen sl) (arrays st (base sl)) @ bs @ drop n (arrays st (base sl)))\<rparr>)
      else
        let c = growcap (scap sl) n in
        (\<lparr>base = nxt st, slen = n, scap = c\<rparr>,
         st\<lparr>arrays := (arrays st)(nxt st :=
               take (slen sl) (arrays st (base sl)) @ bs @ replicate (c - n) (CHR 0x00)),
            nxt := Suc (nxt st)\<rparr>))"

definition go_copy :: "slice \<Rightarrow> string \<Rightarrow> heap \<Rightarrow> heap" where
  "go_copy dst src st =
     (let n = min (slen dst) (length src) in
      st\<lparr>arrays := (arrays st)(base dst := take n src @ drop n (arrays st (base dst)))\<rparr>)"

subsection \<open>The buffer and its pool\<close>

definition maxBufferSize :: nat where
  "maxBufferSize = 16 * 2 ^ 10"

text \<open>The pool's \<^verbatim>\<open>New\<close>: a slice of length 0 and capacity 1024 in a new cell.\<close>

definition bufPool_New :: "heap \<Rightarrow> nat \<times> heap" where
  "bufPool_New st =
     (case make_bytes 0 1024 st of (b, st1) \<Rightarrow>
        (nxt st1, st1\<lparr>bufs := (bufs st1)(nxt st1 := b), nxt := Suc (nxt st1)\<rparr>))"

text \<open>
  \<^verbatim>\<open>sync.Pool.Get\<close> returns some pooled item, removing it, or calls \<^verbatim>\<open>New\<close>; which,
  is the pool's choice, here the argument \<open>pick\<close>. \<^verbatim>\<open>Put\<close> adds an item.
\<close>

definition Pool_Get :: "nat option \<Rightarrow> heap \<Rightarrow> nat \<times> heap" where
  "Pool_Get pick st =
     (case pick of
        Some i \<Rightarrow>
          if i < length (bufPool st) then
            (bufPool st ! i, st\<lparr>bufPool := take i (bufPool st) @ drop (Suc i) (bufPool st)\<rparr>)
          else bufPool_New st
      | None \<Rightarrow> bufPool_New st)"

definition Pool_Put :: "nat \<Rightarrow> heap \<Rightarrow> heap" where
  "Pool_Put b st = st\<lparr>bufPool := bufPool st @ [b]\<rparr>"

definition allocBuf :: "nat option \<Rightarrow> heap \<Rightarrow> nat \<times> heap" where
  "allocBuf pick st = Pool_Get pick st"

definition free :: "nat \<Rightarrow> heap \<Rightarrow> heap" where
  "free b st =
     (if scap (bufs st b) \<le> maxBufferSize then
        Pool_Put b (st\<lparr>bufs := (bufs st)(b := (bufs st b)\<lparr>slen := 0\<rparr>)\<rparr>)
      else st)"

definition reset :: "nat \<Rightarrow> heap \<Rightarrow> heap" where
  "reset b st = st\<lparr>bufs := (bufs st)(b := (bufs st b)\<lparr>slen := 0\<rparr>)\<rparr>"

definition buffer_write :: "nat \<Rightarrow> string \<Rightarrow> heap \<Rightarrow> heap" where
  "buffer_write b p st =
     (case go_append (bufs st b) p st of (sl, st1) \<Rightarrow> st1\<lparr>bufs := (bufs st1)(b := sl)\<rparr>)"

definition writeString :: "nat \<Rightarrow> string \<Rightarrow> heap \<Rightarrow> heap" where
  "writeString b s st =
     (case go_append (bufs st b) s st of (sl, st1) \<Rightarrow> st1\<lparr>bufs := (bufs st1)(b := sl)\<rparr>)"

definition writeByte :: "nat \<Rightarrow> char \<Rightarrow> heap \<Rightarrow> heap" where
  "writeByte b c st =
     (case go_append (bufs st b) [c] st of (sl, st1) \<Rightarrow> st1\<lparr>bufs := (bufs st1)(b := sl)\<rparr>)"

text \<open>The bytes a buffer holds: what \<^verbatim>\<open>*b\<close> reads as.\<close>

definition contents :: "heap \<Rightarrow> nat \<Rightarrow> string" where
  "contents st b = slice_bytes st (bufs st b)"

section \<open>The value renderer\<close>

definition appendString :: "golib \<Rightarrow> slice \<Rightarrow> string \<Rightarrow> heap \<Rightarrow> slice \<times> heap" where
  "appendString lib dst str st =
     (if needsQuoting lib str then go_append dst (Quote lib str) st
      else go_append dst str st)"

definition timeLayout :: string where
  "timeLayout = ''2006-01-02 15:04:05.999999999 -0700 MST''"

text \<open>
  \<^verbatim>\<open>appendValue\<close> switches on the kind and reads the payload of that kind; the default
  branch panics. The newer draft formats a time by a layout, the older one with
  \<^verbatim>\<open>Time.String\<close>.
\<close>

fun appendValue :: "golib \<Rightarrow> Value \<Rightarrow> slice \<Rightarrow> heap \<Rightarrow> error + slice \<times> heap" where
  "appendValue lib (StringValue s) dst st = Inr (appendString lib dst s st)"
| "appendValue lib (Int64Value i) dst st = Inr (go_append dst (Itoa (sint i)) st)"
| "appendValue lib (Uint64Value u) dst st = Inr (go_append dst (dec_nat (unat u)) st)"
| "appendValue lib (Float64Value f) dst st = Inr (go_append dst (FormatFloat lib f) st)"
| "appendValue lib (BoolValue b) dst st = Inr (go_append dst (FormatBool b) st)"
| "appendValue lib (DurationValue d) dst st = Inr (go_append dst (Duration_String lib d) st)"
| "appendValue lib (TimeValue t) dst st = Inr (go_append dst (Time_Format lib t timeLayout) st)"
| "appendValue lib (GroupValue as) dst st = Inr (go_append dst (Sprint_group lib as) st)"
| "appendValue lib (AnyValue x) dst st = Inr (go_append dst (Sprint_any lib x) st)"
| "appendValue lib (LogValuerValue v) dst st =
     Inr (go_append dst (Sprint_valuer lib v) st)"
| "appendValue lib (LogValuerPanics n) dst st = Inr (go_append dst (Sprint_obj lib n) st)"
| "appendValue lib (UnknownValue k) dst st = Inl (Panic ''bad kind: <unknown slog.Kind>'')"

fun old_appendValue :: "golib \<Rightarrow> Value \<Rightarrow> slice \<Rightarrow> heap \<Rightarrow> error + slice \<times> heap" where
  "old_appendValue lib (StringValue s) dst st = Inr (appendString lib dst s st)"
| "old_appendValue lib (Int64Value i) dst st = Inr (go_append dst (Itoa (sint i)) st)"
| "old_appendValue lib (Uint64Value u) dst st = Inr (go_append dst (dec_nat (unat u)) st)"
| "old_appendValue lib (Float64Value f) dst st = Inr (go_append dst (FormatFloat lib f) st)"
| "old_appendValue lib (BoolValue b) dst st = Inr (go_append dst (FormatBool b) st)"
| "old_appendValue lib (DurationValue d) dst st =
     Inr (go_append dst (Duration_String lib d) st)"
| "old_appendValue lib (TimeValue t) dst st = Inr (go_append dst (Time_String lib t) st)"
| "old_appendValue lib (GroupValue as) dst st = Inr (go_append dst (Sprint_group lib as) st)"
| "old_appendValue lib (AnyValue x) dst st = Inr (go_append dst (Sprint_any lib x) st)"
| "old_appendValue lib (LogValuerValue v) dst st =
     Inr (go_append dst (Sprint_valuer lib v) st)"
| "old_appendValue lib (LogValuerPanics n) dst st = Inr (go_append dst (Sprint_obj lib n) st)"
| "old_appendValue lib (UnknownValue k) dst st =
     Inl (Panic ''bad kind: <unknown slog.Kind>'')"

section \<open>The attribute composer\<close>

text \<open>The newer draft's \<^verbatim>\<open>mergePrefWithKey\<close>, and the older draft's.\<close>

definition mergePrefWithKey :: "string \<Rightarrow> string \<Rightarrow> string" where
  "mergePrefWithKey pref key =
     (if 0 < length pref then
        (if 0 < length key then pref @ ''.'' @ key else pref)
      else key)"

definition old_mergePrefWithKey :: "string \<Rightarrow> string \<Rightarrow> string" where
  "old_mergePrefWithKey pref key =
     (if 0 < length pref \<and> 0 < length key then pref @ ''.'' @ key else key)"

text \<open>
  A loop over attributes that threads the store and stops at a panic. \<open>None\<close> is a
  step that does not return.
\<close>

fun for_attrs ::
  "(Attr \<Rightarrow> heap \<Rightarrow> (error + heap) option) \<Rightarrow> Attr list \<Rightarrow> heap \<Rightarrow> (error + heap) option"
where
  "for_attrs f [] st = Some (Inr st)"
| "for_attrs f (a # as) st =
     (case f a st of
        None \<Rightarrow> None
      | Some (Inl e) \<Rightarrow> Some (Inl e)
      | Some (Inr st1) \<Rightarrow> for_attrs f as st1)"

text \<open>
  The composer holds its buffer, the handler it composes for (which no operation writes
  to: the functions below take the handler \<^verbatim>\<open>c.h\<close> points to) and a prefix that
  nothing ever sets.
\<close>

record composer =
  c_buf :: nat
  c_h :: ConsoleHandler
  c_pref :: string

definition newComposer :: "nat option \<Rightarrow> ConsoleHandler \<Rightarrow> heap \<Rightarrow> composer \<times> heap" where
  "newComposer pick h st =
     (case allocBuf pick st of (b, st1) \<Rightarrow> (\<lparr>c_buf = b, c_h = h, c_pref = []\<rparr>, st1))"

definition destruct :: "composer \<Rightarrow> heap \<Rightarrow> heap" where
  "destruct c st = free (c_buf c) st"

definition addSpace :: "composer \<Rightarrow> bool \<Rightarrow> heap \<Rightarrow> heap" where
  "addSpace c add st = (if add then writeByte (c_buf c) (CHR '' '') st else st)"

definition bufLen :: "composer \<Rightarrow> heap \<Rightarrow> nat" where
  "bufLen c st = slen (bufs st (c_buf c))"

definition optionalReplaceAttr :: "composer \<Rightarrow> string list \<Rightarrow> Attr \<Rightarrow> Attr" where
  "optionalReplaceAttr c gs a =
     (case ReplaceAttr (opts (c_h c)) of None \<Rightarrow> a | Some f \<Rightarrow> f gs a)"

definition optionalStringLevel :: "composer \<Rightarrow> Level \<Rightarrow> string" where
  "optionalStringLevel c lv =
     (case StringLevel (opts (c_h c)) of Some f \<Rightarrow> f lv | None \<Rightarrow> Level_String lv)"

text \<open>
  \<^verbatim>\<open>composer.appendAttr\<close>. A rewrite function may return a group for each member of a
  group, so the recursion need not end: the first argument is fuel, and \<open>None\<close> is the
  call that does not return.
\<close>

fun appendAttr ::
  "nat \<Rightarrow> golib \<Rightarrow> composer \<Rightarrow> Attr \<Rightarrow> string \<Rightarrow> heap \<Rightarrow> (error + heap) option"
where
  "appendAttr 0 lib c a keyPref st = None"
| "appendAttr (Suc n) lib c a0 keyPref0 st =
     (let a1 = optionalReplaceAttr c (groups (c_h c)) a0;
          a = Attr (Key a1) (Resolve lib (Val a1))
      in if Attr_Equal_zero a then Some (Inr st)
         else
           let keyPref = (if length keyPref0 = 0 then prefix (c_h c) else keyPref0) in
           case Val a of
             GroupValue attrs \<Rightarrow>
               if length attrs = 0 then Some (Inr st)
               else for_attrs
                      (\<lambda>ga. appendAttr n lib c ga (mergePrefWithKey keyPref (Key a))) attrs st
           | v \<Rightarrow>
               let st1 = addSpace c (0 < bufLen c st) st;
                   st2 = writeString (c_buf c) (mergePrefWithKey keyPref (Key a)) st1;
                   st3 = writeByte (c_buf c) (CHR ''='') st2
               in (case appendValue lib v (bufs st3 (c_buf c)) st3 of
                     Inl e \<Rightarrow> Some (Inl e)
                   | Inr (sl, st4) \<Rightarrow> Some (Inr (st4\<lparr>bufs := (bufs st4)(c_buf c := sl)\<rparr>))))"

declare appendAttr.simps [simp del]

definition ConsoleColorReset :: string where "ConsoleColorReset = CHR 0x1B # ''[0m''"
definition ConsoleColorRed :: string where "ConsoleColorRed = CHR 0x1B # ''[31m''"
definition ConsoleColorGreen :: string where "ConsoleColorGreen = CHR 0x1B # ''[32m''"
definition ConsoleColorYellow :: string where "ConsoleColorYellow = CHR 0x1B # ''[33m''"
definition ConsoleColorWhite :: string where "ConsoleColorWhite = CHR 0x1B # ''[97m''"

definition level_color :: "Level \<Rightarrow> string" where
  "level_color lv =
     (if lv < LevelInfo then ConsoleColorWhite
      else if lv < LevelWarn then ConsoleColorGreen
      else if lv < LevelError then ConsoleColorYellow
      else ConsoleColorRed)"

definition appendLevel :: "golib \<Rightarrow> composer \<Rightarrow> Level \<Rightarrow> heap \<Rightarrow> error + heap" where
  "appendLevel lib c lv st =
     (let lvStr = optionalStringLevel c lv in
      case Colorize (opts (c_h c)) of
        None \<Rightarrow> Inl (Panic ''nil pointer dereference'')
      | Some cz \<Rightarrow>
          let color = (cz \<and> GOOS lib \<noteq> ''windows'') in
          if \<not> color then
            Inr (writeString (c_buf c) lvStr (addSpace c (0 < slen (bufs st (c_buf c))) st))
          else
            let st1 = addSpace c (0 < slen (bufs st (c_buf c))) st;
                st2 = writeString (c_buf c) (level_color lv) st1
            in Inr (writeString (c_buf c) (lvStr @ ConsoleColorReset) st2))"

definition IsZero :: "Time \<Rightarrow> bool" where
  "IsZero tm = (tm = 0)"

definition appendTime :: "golib \<Rightarrow> composer \<Rightarrow> Time \<Rightarrow> heap \<Rightarrow> heap" where
  "appendTime lib c tm st =
     (if IsZero tm \<and> DropTime (opts (c_h c)) then st
      else
        case go_append (bufs st (c_buf c)) (Time_Format lib tm (TimeFormat (opts (c_h c)))) st
        of (sl, st1) \<Rightarrow> st1\<lparr>bufs := (bufs st1)(c_buf c := sl)\<rparr>)"

text \<open>\<^verbatim>\<open>fmt.Sprintf("%s=%d", f.File, f.Line)\<close> on the frame of a program counter.\<close>

definition source_text :: "golib \<Rightarrow> nat \<Rightarrow> string" where
  "source_text lib pc = Frame_File lib pc @ ''='' @ Itoa (Frame_Line lib pc)"

definition appendSource :: "nat \<Rightarrow> golib \<Rightarrow> composer \<Rightarrow> nat \<Rightarrow> heap \<Rightarrow> (error + heap) option" where
  "appendSource fuel lib c pc st =
     (if \<not> AddSource (opts (c_h c)) \<or> pc \<noteq> 0 then Some (Inr st)
      else appendAttr fuel lib c (Attr SourceKey (StringValue (source_text lib pc))) (c_pref c) st)"

definition walkAttrs :: "nat \<Rightarrow> golib \<Rightarrow> composer \<Rightarrow> Attr \<Rightarrow> heap \<Rightarrow> (error + heap) option" where
  "walkAttrs fuel lib c a st = appendAttr fuel lib c a (c_pref c) st"

section \<open>The handler of the newer draft\<close>

record Record =
  rTime :: Time
  rMessage :: string
  rLevel :: Level
  rPC :: nat
  rAttrs :: "Attr list"

definition defaultTimeFormat :: string where
  "defaultTimeFormat = ''2006-01-02 15:04:05.000''"

definition os_Stderr :: nat where
  "os_Stderr = 2"

definition zero_Options :: Options where
  "zero_Options = \<lparr>AddSource = False, Colorize = None, DropTime = False, Level = None,
     ReplaceAttr = None, StringLevel = None, TimeFormat = []\<rparr>"

definition optionalLevelVar :: "Level option \<Rightarrow> Level option" where
  "optionalLevelVar lv = (case lv of None \<Rightarrow> Some 0 | Some l \<Rightarrow> Some l)"

definition alloc_handler :: "ConsoleHandler \<Rightarrow> heap \<Rightarrow> nat \<times> heap" where
  "alloc_handler h st =
     (nxt st, st\<lparr>handlers := (handlers st)(nxt st \<mapsto> h), nxt := Suc (nxt st)\<rparr>)"

text \<open>\<^verbatim>\<open>New(w, opts)\<close>: \<open>w\<close> and \<open>opts\<close> may be nil.\<close>

definition New :: "nat option \<Rightarrow> Options option \<Rightarrow> heap \<Rightarrow> nat \<times> heap" where
  "New w opts0 st =
     (let o1 = (case opts0 of None \<Rightarrow> zero_Options | Some x \<Rightarrow> x);
          m = nxt st;
          st1 = st\<lparr>nxt := Suc (nxt st)\<rparr>;
          o2 = o1\<lparr>Level := optionalLevelVar (Level o1)\<rparr>;
          o3 = (if Colorize o2 = None then o2\<lparr>Colorize := Some False\<rparr> else o2);
          o4 = (if length (TimeFormat o3) = 0 then o3\<lparr>TimeFormat := defaultTimeFormat\<rparr>
                else o3);
          h = \<lparr>opts = o4, groups = [], preformatted = nil_slice, prefix = [], mu = m,
               out = (case w of None \<Rightarrow> os_Stderr | Some x \<Rightarrow> x)\<rparr>
      in alloc_handler h st1)"

definition Enabled :: "ConsoleHandler \<Rightarrow> Level \<Rightarrow> error + bool" where
  "Enabled h level =
     (case Level (opts h) of
        None \<Rightarrow> Inl (Panic ''nil pointer dereference'')
      | Some l \<Rightarrow> Inr (l \<le> level))"

text \<open>
  \<^verbatim>\<open>Handle\<close> composes the line in a pooled buffer, writes it to the handler's writer
  under the handler's lock and returns the writer's error. The result holds that error
  and the store, whose \<open>written\<close> has the line as its last entry.
\<close>

definition Handle ::
  "nat \<Rightarrow> golib \<Rightarrow> nat option \<Rightarrow> nat \<Rightarrow> Record \<Rightarrow> heap \<Rightarrow> (error + string option \<times> heap) option"
where
  "Handle fuel lib pick hp r st =
     (case handlers st hp of
        None \<Rightarrow> Some (Inl (Panic ''nil pointer dereference''))
      | Some h \<Rightarrow>
         (case newComposer pick h st of (cm, st0) \<Rightarrow>
          let st1 = appendTime lib cm (rTime r) st0 in
          (case appendLevel lib cm (rLevel r) st1 of
             Inl e \<Rightarrow> Some (Inl e)
           | Inr st2 \<Rightarrow>
              let st3 = (if 0 < length (rMessage r) then
                           writeString (c_buf cm) (rMessage r)
                             (addSpace cm (0 < bufLen cm st2) st2)
                         else st2)
              in (case appendSource fuel lib cm (rPC r) st3 of
                    None \<Rightarrow> None
                  | Some (Inl e) \<Rightarrow> Some (Inl e)
                  | Some (Inr st4) \<Rightarrow>
                     let st5 = addSpace cm (0 < bufLen cm st4 \<and> 0 < slen (preformatted h)) st4;
                         st6 = buffer_write (c_buf cm) (slice_bytes st5 (preformatted h)) st5
                     in (case (if 0 < length (rAttrs r) then
                                 for_attrs (walkAttrs fuel lib cm) (rAttrs r) st6
                               else Some (Inr st6)) of
                           None \<Rightarrow> None
                         | Some (Inl e) \<Rightarrow> Some (Inl e)
                         | Some (Inr st7) \<Rightarrow>
                            let st8 = writeString (c_buf cm) [CHR 0x0A] st7;
                                line = contents st8 (c_buf cm);
                                st9 = st8\<lparr>written := written st8 @ [(out h, line)]\<rparr>
                            in Some (Inr (Write_error lib (out h) line, destruct cm st9)))))))"

text \<open>
  \<^verbatim>\<open>withGroup\<close> and \<^verbatim>\<open>withAttrs\<close> return a pointer to a handler: the receiver's own
  on the empty name or list, a new object otherwise. The group list of the new handler
  is made, copied into and set at its last index, as the source does.
\<close>

definition withGroup :: "nat option \<Rightarrow> nat \<Rightarrow> string \<Rightarrow> heap \<Rightarrow> error + nat \<times> heap" where
  "withGroup pick hp name st =
     (if name = [] then Inr (hp, st)
      else
        case handlers st hp of
          None \<Rightarrow> Inl (Panic ''nil pointer dereference'')
        | Some h \<Rightarrow>
           (case allocBuf pick st of (b, st0) \<Rightarrow>
            let st1 = writeString b (prefix h) st0;
                st2 = (if 0 < slen (bufs st1 b) then writeByte b (CHR ''.'') st1 else st1);
                st3 = writeString b name st2;
                h2 = h\<lparr>prefix := contents st3 b\<rparr>;
                g0 = replicate (length (groups h2) + 1) [];
                k = min (length g0) (length (groups h));
                g1 = take k (groups h) @ drop k g0;
                g2 = g1[length g1 - 1 := name];
                h3 = h2\<lparr>groups := g2\<rparr>
            in Inr (alloc_handler h3 (free b st3))))"

definition withAttrs ::
  "nat \<Rightarrow> golib \<Rightarrow> nat option \<Rightarrow> nat \<Rightarrow> Attr list \<Rightarrow> heap \<Rightarrow> (error + nat \<times> heap) option"
where
  "withAttrs fuel lib pick hp attrs st =
     (if length attrs = 0 then Some (Inr (hp, st))
      else
        case handlers st hp of
          None \<Rightarrow> Some (Inl (Panic ''nil pointer dereference''))
        | Some h \<Rightarrow>
           (case newComposer pick h st of (cm, st0) \<Rightarrow>
            let st1 = buffer_write (c_buf cm) (slice_bytes st0 (preformatted h)) st0 in
            (case for_attrs (\<lambda>a. appendAttr fuel lib cm a (prefix h)) attrs st1 of
               None \<Rightarrow> None
             | Some (Inl e) \<Rightarrow> Some (Inl e)
             | Some (Inr st2) \<Rightarrow>
                (case make_bytes (bufLen cm st2) (bufLen cm st2) st2 of (pf, st3) \<Rightarrow>
                 let st4 = go_copy pf (contents st3 (c_buf cm)) st3;
                     h2 = h\<lparr>preformatted := pf\<rparr>
                 in Some (Inr (alloc_handler h2 (destruct cm st4)))))))"

definition WithGroup :: "nat option \<Rightarrow> nat \<Rightarrow> string \<Rightarrow> heap \<Rightarrow> error + nat \<times> heap" where
  "WithGroup pick hp name st = withGroup pick hp name st"

definition WithAttrs ::
  "nat \<Rightarrow> golib \<Rightarrow> nat option \<Rightarrow> nat \<Rightarrow> Attr list \<Rightarrow> heap \<Rightarrow> (error + nat \<times> heap) option"
where
  "WithAttrs fuel lib pick hp attrs st = withAttrs fuel lib pick hp attrs st"

section \<open>The handler of the older draft\<close>

definition old_addSpace :: "bool \<Rightarrow> string" where
  "old_addSpace add = (if add then '' '' else [])"

fun old_appendAttr ::
  "nat \<Rightarrow> golib \<Rightarrow> old_ConsoleHandler \<Rightarrow> nat \<Rightarrow> Attr \<Rightarrow> string \<Rightarrow> heap
     \<Rightarrow> (error + heap) option"
where
  "old_appendAttr 0 lib h buf a keyPref st = None"
| "old_appendAttr (Suc n) lib h buf a0 keyPref st =
     (let a1 = (case ReplaceAttr (old_opts h) of None \<Rightarrow> a0 | Some f \<Rightarrow> f [] a0);
          a = Attr (Key a1) (Resolve lib (Val a1))
      in if Attr_Equal_zero a then Some (Inr st)
         else
           case Val a of
             GroupValue attrs \<Rightarrow>
               if length attrs = 0 then Some (Inr st)
               else for_attrs
                      (\<lambda>ga. old_appendAttr n lib h buf ga (old_mergePrefWithKey keyPref (Key a)))
                      attrs st
           | v \<Rightarrow>
               let st1 = writeString buf (old_addSpace (0 < slen (bufs st buf))) st;
                   st2 = writeString buf (old_mergePrefWithKey keyPref (Key a) @ ''='') st1
               in (case old_appendValue lib v (bufs st2 buf) st2 of
                     Inl e \<Rightarrow> Some (Inl e)
                   | Inr (sl, st3) \<Rightarrow> Some (Inr (st3\<lparr>bufs := (bufs st3)(buf := sl)\<rparr>))))"

declare old_appendAttr.simps [simp del]

definition old_appendLevel ::
  "golib \<Rightarrow> old_ConsoleHandler \<Rightarrow> nat \<Rightarrow> Level \<Rightarrow> bool \<Rightarrow> heap \<Rightarrow> heap"
where
  "old_appendLevel lib h buf lv color0 st =
     (let lvStr = (case StringLevel (old_opts h) of Some f \<Rightarrow> f lv | None \<Rightarrow> Level_String lv);
          color = (color0 \<and> GOOS lib \<noteq> ''windows'')
      in if \<not> color then writeString buf (old_addSpace (0 < slen (bufs st buf)) @ lvStr) st
         else
           let st1 = writeString buf (old_addSpace (0 < slen (bufs st buf))) st;
               st2 = writeString buf (level_color lv) st1
           in writeString buf (lvStr @ ConsoleColorReset) st2)"

definition alloc_old_handler :: "old_ConsoleHandler \<Rightarrow> heap \<Rightarrow> nat \<times> heap" where
  "alloc_old_handler h st =
     (nxt st, st\<lparr>old_handlers := (old_handlers st)(nxt st \<mapsto> h), nxt := Suc (nxt st)\<rparr>)"

definition old_New :: "nat option \<Rightarrow> Options option \<Rightarrow> heap \<Rightarrow> nat \<times> heap" where
  "old_New w opts0 st =
     (let o1 = (case opts0 of None \<Rightarrow> zero_Options | Some x \<Rightarrow> x);
          m = nxt st;
          st1 = st\<lparr>nxt := Suc (nxt st)\<rparr>;
          o2 = (if Colorize o1 = None then o1\<lparr>Colorize := Some False\<rparr> else o1);
          o3 = (if Level o2 = None then o2\<lparr>Level := Some 0\<rparr> else o2);
          o4 = (if length (TimeFormat o3) = 0 then o3\<lparr>TimeFormat := defaultTimeFormat\<rparr>
                else o3);
          h = \<lparr>old_opts = o4, old_preformatted = nil_slice, old_prefix = nil_slice,
               old_mu = m, old_out = (case w of None \<Rightarrow> os_Stderr | Some x \<Rightarrow> x)\<rparr>
      in alloc_old_handler h st1)"

definition old_Handle ::
  "nat \<Rightarrow> golib \<Rightarrow> nat option \<Rightarrow> nat \<Rightarrow> Record \<Rightarrow> heap \<Rightarrow> (error + string option \<times> heap) option"
where
  "old_Handle fuel lib pick hp r st =
     (case old_handlers st hp of
        None \<Rightarrow> Some (Inl (Panic ''nil pointer dereference''))
      | Some h \<Rightarrow>
         (case allocBuf pick st of (buf, st0) \<Rightarrow>
          let st1 = (if \<not> IsZero (rTime r) \<and> \<not> DropTime (old_opts h) then
                       (case go_append (bufs st0 buf)
                               (Time_Format lib (rTime r) (TimeFormat (old_opts h))) st0
                        of (sl, sta) \<Rightarrow> sta\<lparr>bufs := (bufs sta)(buf := sl)\<rparr>)
                     else st0)
          in (case Colorize (old_opts h) of
                None \<Rightarrow> Some (Inl (Panic ''nil pointer dereference''))
              | Some cz \<Rightarrow>
                 let st2 = old_appendLevel lib h buf (rLevel r) cz st1;
                     st3 = (if 0 < length (rMessage r) then
                              writeString buf
                                (old_addSpace (0 < slen (bufs st2 buf)) @ rMessage r) st2
                            else st2)
                 in (case (if AddSource (old_opts h) \<and> rPC r \<noteq> 0 then
                             old_appendAttr fuel lib h buf
                               (Attr SourceKey (StringValue (source_text lib (rPC r)))) [] st3
                           else Some (Inr st3)) of
                       None \<Rightarrow> None
                     | Some (Inl e) \<Rightarrow> Some (Inl e)
                     | Some (Inr st4) \<Rightarrow>
                        let st5 = writeString buf
                                    (old_addSpace (0 < slen (bufs st4 buf)
                                        \<and> 0 < slen (old_preformatted h))) st4;
                            st6 = buffer_write buf (slice_bytes st5 (old_preformatted h)) st5
                        in (case (if 0 < length (rAttrs r) then
                                    for_attrs
                                      (\<lambda>a sta. old_appendAttr fuel lib h buf a
                                                  (slice_bytes sta (old_prefix h)) sta)
                                      (rAttrs r) st6
                                  else Some (Inr st6)) of
                              None \<Rightarrow> None
                            | Some (Inl e) \<Rightarrow> Some (Inl e)
                            | Some (Inr st7) \<Rightarrow>
                               let st8 = writeString buf [CHR 0x0A] st7;
                                   line = contents st8 buf;
                                   st9 = st8\<lparr>written := written st8 @ [(old_out h, line)]\<rparr>
                               in Some (Inr (Write_error lib (old_out h) line,
                                             free buf st9)))))))"

definition old_WithGroup :: "nat \<Rightarrow> string \<Rightarrow> heap \<Rightarrow> error + nat \<times> heap" where
  "old_WithGroup hp name st =
     (if name = [] then Inr (hp, st)
      else
        case old_handlers st hp of
          None \<Rightarrow> Inl (Panic ''nil pointer dereference'')
        | Some h \<Rightarrow>
           (case make_bytes 0 (slen (old_prefix h) + length name + 1) st of (p0, st0) \<Rightarrow>
            (case (if 0 < slen (old_prefix h) then
                     (case go_append p0 (slice_bytes st0 (old_prefix h)) st0 of (p1, sta) \<Rightarrow>
                        go_append p1 ''.'' sta)
                   else (p0, st0)) of (p2, st1) \<Rightarrow>
             (case go_append p2 name st1 of (p3, st2) \<Rightarrow>
                Inr (alloc_old_handler (h\<lparr>old_prefix := p3\<rparr>) st2)))))"

definition old_WithAttrs ::
  "nat \<Rightarrow> golib \<Rightarrow> nat option \<Rightarrow> nat \<Rightarrow> Attr list \<Rightarrow> heap \<Rightarrow> (error + nat \<times> heap) option"
where
  "old_WithAttrs fuel lib pick hp attrs st =
     (if length attrs = 0 then Some (Inr (hp, st))
      else
        case old_handlers st hp of
          None \<Rightarrow> Some (Inl (Panic ''nil pointer dereference''))
        | Some h \<Rightarrow>
           (case allocBuf pick st of (buf, st0) \<Rightarrow>
            let st1 = buffer_write buf (slice_bytes st0 (old_preformatted h)) st0 in
            (case for_attrs
                    (\<lambda>a sta. old_appendAttr fuel lib h buf a (slice_bytes sta (old_prefix h)) sta)
                    attrs st1 of
               None \<Rightarrow> None
             | Some (Inl e) \<Rightarrow> Some (Inl e)
             | Some (Inr st2) \<Rightarrow>
                (case make_bytes (slen (bufs st2 buf)) (slen (bufs st2 buf)) st2 of (pf, st3) \<Rightarrow>
                 let st4 = go_copy pf (contents st3 buf) st3;
                     h2 = h\<lparr>old_preformatted := pf\<rparr>
                 in Some (Inr (alloc_old_handler h2 (free buf st4)))))))"

section \<open>Reasoning about the store\<close>

text \<open>
  A slice is valid in a store when its length is within its capacity, its backing array
  is allocated and at least as long as the capacity. \<open>appended b bs st st'\<close> says what
  a run of writes to the buffer \<open>b\<close> may do: the buffer holds \<open>bs\<close> more at its end,
  it stays where it was or moves to a new array, no array changes its length, and
  nothing else in the store changes.
\<close>

definition valid_slice :: "heap \<Rightarrow> slice \<Rightarrow> bool" where
  "valid_slice st sl =
     (slen sl \<le> scap sl \<and> scap sl \<le> length (arrays st (base sl)) \<and> base sl < nxt st)"

definition appended :: "nat \<Rightarrow> string \<Rightarrow> heap \<Rightarrow> heap \<Rightarrow> bool" where
  "appended b bs st st' =
     (valid_slice st' (bufs st' b) \<and>
      contents st' b = contents st b @ bs \<and>
      handlers st' = handlers st \<and> old_handlers st' = old_handlers st \<and>
      bufPool st' = bufPool st \<and> written st' = written st \<and>
      nxt st \<le> nxt st' \<and>
      (\<forall>q. q \<noteq> b \<longrightarrow> bufs st' q = bufs st q) \<and>
      (\<forall>a. a < nxt st \<longrightarrow> a \<noteq> base (bufs st b) \<longrightarrow> arrays st' a = arrays st a) \<and>
      (\<forall>a. a < nxt st \<longrightarrow> length (arrays st' a) = length (arrays st a)) \<and>
      (base (bufs st' b) = base (bufs st b) \<or> nxt st \<le> base (bufs st' b)))"

text \<open>The text \<^verbatim>\<open>appendValue\<close> appends for a value of a declared kind.\<close>

fun value_text :: "golib \<Rightarrow> Value \<Rightarrow> string" where
  "value_text lib (StringValue s) = (if needsQuoting lib s then Quote lib s else s)"
| "value_text lib (Int64Value i) = Itoa (sint i)"
| "value_text lib (Uint64Value u) = dec_nat (unat u)"
| "value_text lib (Float64Value f) = FormatFloat lib f"
| "value_text lib (BoolValue b) = FormatBool b"
| "value_text lib (DurationValue d) = Duration_String lib d"
| "value_text lib (TimeValue t) = Time_Format lib t timeLayout"
| "value_text lib (GroupValue as) = Sprint_group lib as"
| "value_text lib (AnyValue x) = Sprint_any lib x"
| "value_text lib (LogValuerValue v) = Sprint_valuer lib v"
| "value_text lib (LogValuerPanics n) = Sprint_obj lib n"
| "value_text lib (UnknownValue k) = []"

definition recognized_kinds :: "Kind set" where
  "recognized_kinds = {KindString, KindInt64, KindUint64, KindFloat64, KindBool,
     KindDuration, KindTime, KindGroup, KindAny, KindLogValuer}"

subsection \<open>A sample environment\<close>

text \<open>
  Concrete values for the library parameter and an empty store, to evaluate the model at
  concrete inputs. The tables of \<open>lib0\<close> hold the Unicode space characters beyond
  Latin-1 and a few ranges of printable letters; its formatters are constant; the program
  counter 0 resolves to the zero frame (no file, line 0), as in the Go runtime.
\<close>

definition lib0 :: golib where
  "lib0 = \<lparr>
     White_Space = (\<lambda>r. r \<in> {0x1680, 0x2028, 0x2029, 0x202F, 0x205F, 0x3000}
                        \<or> (0x2000 \<le> r \<and> r \<le> 0x200A)),
     PrintRanges = (\<lambda>r. (0x100 \<le> r \<and> r \<le> 0x17F) \<or> (0x391 \<le> r \<and> r \<le> 0x3A1)
                        \<or> (0x410 \<le> r \<and> r \<le> 0x44F) \<or> r = 0xFFFD),
     FormatFloat = (\<lambda>f. ''0''),
     Duration_String = (\<lambda>d. Itoa d @ ''ns''),
     Time_Format = (\<lambda>t layout. ''2023-09-10 20:00:00.000''),
     Time_String = (\<lambda>t. ''2023-09-10 20:00:00 +0000 UTC''),
     Sprint_obj = (\<lambda>n. ''{}''),
     Sprint_group = (\<lambda>as. ''[]''),
     Sprint_valuer = (\<lambda>v. ''{}''),
     Type_String = (\<lambda>v. ''main.valuer''),
     Stack_text = (\<lambda>v. ''goroutine 1 [running]:''),
     Write_error = (\<lambda>w line. None),
     GOOS = ''linux'',
     Frame_File = (\<lambda>pc. if pc = 0 then [] else ''main.go''),
     Frame_Line = (\<lambda>pc. if pc = 0 then 0 else 42)\<rparr>"

definition heap0 :: heap where
  "heap0 = \<lparr>arrays = (\<lambda>a. []), bufs = (\<lambda>b. nil_slice), handlers = Map.empty,
     old_handlers = Map.empty, bufPool = [], written = [], nxt = 1\<rparr>"

definition heap1 :: heap where
  "heap1 = snd (allocBuf None heap0)"

definition opts0 :: Options where
  "opts0 = zero_Options\<lparr>Colorize := Some False, Level := Some 0,
             TimeFormat := defaultTimeFormat\<rparr>"

definition h0 :: ConsoleHandler where
  "h0 = \<lparr>opts = opts0, groups = [], preformatted = nil_slice, prefix = [], mu = 0, out = 1\<rparr>"

definition h1 :: ConsoleHandler where
  "h1 = h0\<lparr>groups := [''grp''], prefix := ''grp''\<rparr>"

definition c0 :: composer where
  "c0 = \<lparr>c_buf = 2, c_h = h0, c_pref = []\<rparr>"

definition c1 :: composer where
  "c1 = \<lparr>c_buf = 2, c_h = h1, c_pref = []\<rparr>"

definition oh0 :: old_ConsoleHandler where
  "oh0 = \<lparr>old_opts = opts0, old_preformatted = nil_slice, old_prefix = nil_slice,
          old_mu = 0, old_out = 1\<rparr>"

subsection \<open>The runes of a string, and what quoting is said to depend on\<close>

text \<open>
  \<open>runes_of s\<close> decodes \<open>s\<close> from left to right as a \<^verbatim>\<open>range\<close> loop over a Go string
  does: each step yields a rune and its width, an invalid byte yields \<open>(RuneError, 1)\<close>.
  \<open>quote_rune\<close> is the test \<^verbatim>\<open>needsQuoting\<close> is shown to apply to each rune.
  \<open>claim_needsQuoting\<close> follows the words of the specification: the empty string, a
  space, \<open>=\<close>, an ASCII control character, a double quote, a rune that is not printable
  or is white space, an invalid encoding.
\<close>

function runes_of :: "string \<Rightarrow> (rune \<times> nat) list" where
  "runes_of [] = []"
| "runes_of (c # cs) =
     (case DecodeRuneInString (c # cs) of (r, w) \<Rightarrow> (r, w) # runes_of (drop w (c # cs)))"
  by pat_completeness auto
termination
  by (relation "measure length") (auto dest: DecodeRuneInString_width_pos [OF sym])

definition quote_rune :: "golib \<Rightarrow> rune \<Rightarrow> bool" where
  "quote_rune lib r =
     (if r < 0x80 then r \<le> 0x20 \<or> r = 0x22 \<or> r = 0x3D
      else r = RuneError \<or> unicode_IsSpace lib r \<or> \<not> unicode_IsPrint lib r)"

definition claim_needsQuoting :: "golib \<Rightarrow> string \<Rightarrow> bool" where
  "claim_needsQuoting lib s =
     (s = [] \<or>
      (\<exists>c \<in> set s. c = CHR '' '' \<or> c = CHR ''='' \<or> byte_of c < 0x20 \<or> c = dquote) \<or>
      (\<exists>(r, w) \<in> set (runes_of s).
          \<not> unicode_IsPrint lib r \<or> unicode_IsSpace lib r \<or> (r = RuneError \<and> w = 1)))"

subsection \<open>Well-formed stores\<close>

text \<open>
  The pool is in order when it holds each buffer once and every pooled buffer is valid
  and of length zero. A handler is in order when it is allocated, its preformatted slice
  is valid and shares no backing array with a pooled buffer.
\<close>

definition pool_ok :: "heap \<Rightarrow> bool" where
  "pool_ok st =
     (distinct (bufPool st) \<and>
      (\<forall>b \<in> set (bufPool st).
          b < nxt st \<and> valid_slice st (bufs st b) \<and> slen (bufs st b) = 0))"

definition handler_ok :: "heap \<Rightarrow> nat \<Rightarrow> ConsoleHandler \<Rightarrow> bool" where
  "handler_ok st hp h =
     (handlers st hp = Some h \<and> hp < nxt st \<and> valid_slice st (preformatted h) \<and>
      (\<forall>b \<in> set (bufPool st). base (bufs st b) \<noteq> base (preformatted h)))"

definition hP :: ConsoleHandler where
  "hP = h0\<lparr>preformatted := \<lparr>base = 1, slen = 3, scap = 3\<rparr>\<rparr>"

definition heapH :: heap where
  "heapH = \<lparr>arrays = (\<lambda>a. [])(1 := ''k=1''), bufs = (\<lambda>b. nil_slice),
     handlers = Map.empty(2 \<mapsto> hP), old_handlers = Map.empty, bufPool = [], written = [],
     nxt = 3\<rparr>"

subsection \<open>Chains of groups\<close>

text \<open>
  \<open>dot_join\<close> joins names with dots. \<open>withGroups\<close> opens a list of groups one after
  the other, each call with the pool's choice for it.
\<close>

fun dot_join :: "string list \<Rightarrow> string" where
  "dot_join [] = []"
| "dot_join [x] = x"
| "dot_join (x # y # ys) = x @ ''.'' @ dot_join (y # ys)"

fun withGroups :: "nat \<Rightarrow> (nat option \<times> string) list \<Rightarrow> heap \<Rightarrow> error + nat \<times> heap" where
  "withGroups hp [] st = Inr (hp, st)"
| "withGroups hp ((pick, name) # rest) st =
     (case withGroup pick hp name st of
        Inl e \<Rightarrow> Inl e
      | Inr (hp1, st1) \<Rightarrow> withGroups hp1 rest st1)"

subsection \<open>The layout of a line\<close>

text \<open>
  \<open>join_token acc tok\<close> is \<open>acc\<close> with \<open>tok\<close> behind it, a space between them when
  \<open>acc\<close> is not empty. \<open>level_text\<close> is the level token, with its colour when colours
  are on. \<open>line_text\<close> lays out a line without record attributes: time, level, message
  (when not empty), source token (when there is one), preformatted attributes (when not
  empty), newline.
\<close>

definition join_token :: "string \<Rightarrow> string \<Rightarrow> string" where
  "join_token acc tok = acc @ (if acc = [] then [] else '' '') @ tok"

definition level_text :: "golib \<Rightarrow> Options \<Rightarrow> Level \<Rightarrow> string" where
  "level_text lib ops lv =
     (let lvStr = (case StringLevel ops of Some f \<Rightarrow> f lv | None \<Rightarrow> Level_String lv)
      in if Colorize ops = Some True \<and> GOOS lib \<noteq> ''windows''
         then level_color lv @ lvStr @ ConsoleColorReset else lvStr)"

definition line_text :: "string \<Rightarrow> string \<Rightarrow> string \<Rightarrow> string option \<Rightarrow> string \<Rightarrow> string" where
  "line_text tm lvl msg src pre =
     (let a = join_token tm lvl;
          b = (if msg = [] then a else join_token a msg);
          c = (case src of None \<Rightarrow> b | Some s \<Rightarrow> join_token b s);
          d = (if pre = [] then c else join_token c pre)
      in d @ [CHR 0x0A])"

subsection \<open>The older draft: texts and handlers in order\<close>

text \<open>
  The older draft's \<^verbatim>\<open>appendValue\<close> appends the same text as the newer one's but for a
  time. A handler of the older draft is in order when it is allocated and its two slices
  are valid and share no backing array with a pooled buffer.
\<close>

definition old_value_text :: "golib \<Rightarrow> Value \<Rightarrow> string" where
  "old_value_text lib v = (case v of TimeValue t \<Rightarrow> Time_String lib t | _ \<Rightarrow> value_text lib v)"

definition old_handler_ok :: "heap \<Rightarrow> nat \<Rightarrow> old_ConsoleHandler \<Rightarrow> bool" where
  "old_handler_ok st hp h =
     (old_handlers st hp = Some h \<and> hp < nxt st \<and>
      valid_slice st (old_preformatted h) \<and> valid_slice st (old_prefix h) \<and>
      (\<forall>b \<in> set (bufPool st). base (bufs st b) \<noteq> base (old_preformatted h)
                                \<and> base (bufs st b) \<noteq> base (old_prefix h)))"

subsection \<open>Sample handlers and a sample record\<close>

text \<open>
  Two handlers of each draft in one store, one that drops the time and one that adds the
  source, and a record with a time, a message, a program counter and no attributes.
\<close>

definition hT :: ConsoleHandler where
  "hT = h0\<lparr>opts := opts0\<lparr>DropTime := True\<rparr>\<rparr>"

definition hS :: ConsoleHandler where
  "hS = h0\<lparr>opts := opts0\<lparr>AddSource := True\<rparr>\<rparr>"

definition ohT :: old_ConsoleHandler where
  "ohT = oh0\<lparr>old_opts := opts0\<lparr>DropTime := True\<rparr>\<rparr>"

definition ohS :: old_ConsoleHandler where
  "ohS = oh0\<lparr>old_opts := opts0\<lparr>AddSource := True\<rparr>\<rparr>"

definition heapR :: heap where
  "heapR = heap0\<lparr>handlers := [1 \<mapsto> hT, 2 \<mapsto> hS], old_handlers := [3 \<mapsto> ohT, 4 \<mapsto> ohS],
             nxt := 5\<rparr>"

definition rec0 :: Record where
  "rec0 = \<lparr>rTime = 1694376000, rMessage = ''msg'', rLevel = LevelError, rPC = 7, rAttrs = []\<rparr>"

section \<open>Lemmas on the store\<close>

lemma appended_refl: "valid_slice st (bufs st b) \<Longrightarrow> appended b [] st st"
  by (simp add: appended_def)

lemma appended_trans:
  assumes "appended b xs st st1" "appended b ys st1 st2"
  shows "appended b (xs @ ys) st st2"
proof -
  have n: "nxt st \<le> nxt st1" "nxt st1 \<le> nxt st2"
    using assms by (simp_all add: appended_def)
  have b1: "base (bufs st1 b) = base (bufs st b) \<or> nxt st \<le> base (bufs st1 b)"
    using assms(1) by (simp add: appended_def)
  have b2: "base (bufs st2 b) = base (bufs st1 b) \<or> nxt st1 \<le> base (bufs st2 b)"
    using assms(2) by (simp add: appended_def)
  have arr: "arrays st2 a = arrays st a" if "a < nxt st" "a \<noteq> base (bufs st b)" for a
  proof -
    have "arrays st1 a = arrays st a"
      using assms(1) that by (simp add: appended_def)
    moreover have "a < nxt st1"
      using that n by simp
    moreover have "a \<noteq> base (bufs st1 b)"
      using b1 that by auto
    ultimately show ?thesis
      using assms(2) by (simp add: appended_def)
  qed
  have bb: "base (bufs st2 b) = base (bufs st b) \<or> nxt st \<le> base (bufs st2 b)"
    using b1 b2 n by auto
  have len: "length (arrays st2 a) = length (arrays st a)" if "a < nxt st" for a
  proof -
    have "length (arrays st1 a) = length (arrays st a)"
      using assms(1) that by (simp add: appended_def)
    moreover have "a < nxt st1"
      using that n by simp
    ultimately show ?thesis
      using assms(2) by (simp add: appended_def)
  qed
  show ?thesis
    unfolding appended_def
    using assms n arr bb len by (simp add: appended_def)
qed

lemma go_append_buf:
  assumes v: "valid_slice st (bufs st b)" and g: "go_append (bufs st b) bs st = (sl, st1)"
  shows "appended b bs st (st1\<lparr>bufs := (bufs st1)(b := sl)\<rparr>)"
proof (cases "slen (bufs st b) + length bs \<le> scap (bufs st b)")
  case True
  then have sl: "sl = (bufs st b)\<lparr>slen := slen (bufs st b) + length bs\<rparr>"
    and st1: "st1 = st\<lparr>arrays := (arrays st)(base (bufs st b) :=
               take (slen (bufs st b)) (arrays st (base (bufs st b))) @ bs
                 @ drop (slen (bufs st b) + length bs) (arrays st (base (bufs st b))))\<rparr>"
    using g by (simp_all add: go_append_def Let_def)
  show ?thesis
    using v True
    by (simp add: sl st1 appended_def valid_slice_def contents_def slice_bytes_def)
next
  case False
  then have sl: "sl = \<lparr>base = nxt st, slen = slen (bufs st b) + length bs,
                       scap = growcap (scap (bufs st b)) (slen (bufs st b) + length bs)\<rparr>"
    and st1: "st1 = st\<lparr>arrays := (arrays st)(nxt st :=
               take (slen (bufs st b)) (arrays st (base (bufs st b))) @ bs
                 @ replicate (growcap (scap (bufs st b)) (slen (bufs st b) + length bs)
                      - (slen (bufs st b) + length bs)) (CHR 0x00)),
            nxt := Suc (nxt st)\<rparr>"
    using g by (simp_all add: go_append_def Let_def)
  show ?thesis
    using v False
    by (simp add: sl st1 appended_def valid_slice_def contents_def slice_bytes_def growcap_def)
qed

lemma appended_valid: "appended b bs st st' \<Longrightarrow> valid_slice st' (bufs st' b)"
  by (simp add: appended_def)

lemma appended_contents: "appended b bs st st' \<Longrightarrow> contents st' b = contents st b @ bs"
  by (simp add: appended_def)

lemma length_contents: "valid_slice st (bufs st b) \<Longrightarrow> length (contents st b) = slen (bufs st b)"
  by (simp add: valid_slice_def contents_def slice_bytes_def)

lemma writeString_appended:
  "valid_slice st (bufs st b) \<Longrightarrow> appended b s st (writeString b s st)"
  by (cases "go_append (bufs st b) s st") (simp add: writeString_def go_append_buf)

lemma writeByte_appended:
  "valid_slice st (bufs st b) \<Longrightarrow> appended b [c] st (writeByte b c st)"
  by (cases "go_append (bufs st b) [c] st") (simp add: writeByte_def go_append_buf)

lemma buffer_write_appended:
  "valid_slice st (bufs st b) \<Longrightarrow> appended b p st (buffer_write b p st)"
  by (cases "go_append (bufs st b) p st") (simp add: buffer_write_def go_append_buf)

lemma addSpace_appended:
  "valid_slice st (bufs st (c_buf c)) \<Longrightarrow>
   appended (c_buf c) (if add then '' '' else []) st (addSpace c add st)"
  by (simp add: addSpace_def writeByte_appended appended_refl)

lemma appendValue_appended:
  assumes "valid_slice st (bufs st b)" "Kind_of v \<in> recognized_kinds"
  shows "\<exists>sl st1. appendValue lib v (bufs st b) st = Inr (sl, st1) \<and>
           appended b (value_text lib v) st (st1\<lparr>bufs := (bufs st1)(b := sl)\<rparr>)"
proof -
  obtain sl st1 where g: "go_append (bufs st b) (value_text lib v) st = (sl, st1)"
    by (cases "go_append (bufs st b) (value_text lib v) st") auto
  have "appendValue lib v (bufs st b) st = Inr (sl, st1)"
    using assms(2) g by (cases v) (auto simp: recognized_kinds_def appendString_def)
  then show ?thesis
    using go_append_buf [OF assms(1) g] by blast
qed

lemma Resolve_loop_not_valuer: "Kind_of (Resolve_loop lib orig n v) \<noteq> KindLogValuer"
  by (induction lib orig n v rule: Resolve_loop.induct)
     (auto simp: too_many_LogValue_def LogValue_panicked_def split: Value.splits)

lemma Resolve_not_valuer: "Kind_of (Resolve lib v) \<noteq> KindLogValuer"
  by (simp add: Resolve_def Resolve_loop_not_valuer)

lemma Resolve_id: "Kind_of v \<noteq> KindLogValuer \<Longrightarrow> Resolve lib v = v"
proof -
  assume k: "Kind_of v \<noteq> KindLogValuer"
  have "Resolve lib v = Resolve_loop lib v (Suc 99) v"
    by (simp add: Resolve_def)
  also have "\<dots> = v"
    using k by (cases v) (auto simp only: Resolve_loop.simps Value.case Kind_of.simps)
  finally show "Resolve lib v = v" .
qed

lemma appendAttr_leaf:
  assumes v: "valid_slice st (bufs st (c_buf c))"
    and a1: "optionalReplaceAttr c (groups (c_h c)) a = a1"
    and r: "Resolve lib (Val a1) = w"
    and nz: "\<not> Attr_Equal_zero (Attr (Key a1) w)"
    and k: "Kind_of w \<in> recognized_kinds" "Kind_of w \<noteq> KindGroup"
  shows "\<exists>st'. appendAttr (Suc n) lib c a keyPref st = Some (Inr st') \<and>
           appended (c_buf c)
             ((if contents st (c_buf c) = [] then [] else '' '')
                @ mergePrefWithKey (if keyPref = [] then prefix (c_h c) else keyPref) (Key a1)
                @ ''='' @ value_text lib w) st st'"
proof -
  let ?b = "c_buf c"
  let ?sp = "if contents st ?b = [] then [] else '' ''"
  let ?k = "mergePrefWithKey (if keyPref = [] then prefix (c_h c) else keyPref) (Key a1)"
  let ?st1 = "addSpace c (0 < bufLen c st) st"
  let ?st2 = "writeString ?b ?k ?st1"
  let ?st3 = "writeByte ?b (CHR ''='') ?st2"
  have "(0 < bufLen c st) = (0 < length (contents st ?b))"
    by (simp add: bufLen_def length_contents [OF v])
  then have e: "(0 < bufLen c st) = (contents st ?b \<noteq> [])"
    by simp
  have s1: "appended ?b ?sp st ?st1"
    using addSpace_appended [OF v, of "0 < bufLen c st"] e by auto
  have s2: "appended ?b ?k ?st1 ?st2"
    by (rule writeString_appended [OF appended_valid [OF s1]])
  have s3: "appended ?b ''='' ?st2 ?st3"
    by (rule writeByte_appended [OF appended_valid [OF s2]])
  obtain sl st4 where av: "appendValue lib w (bufs ?st3 ?b) ?st3 = Inr (sl, st4)"
    and s4: "appended ?b (value_text lib w) ?st3 (st4\<lparr>bufs := (bufs st4)(?b := sl)\<rparr>)"
    using appendValue_appended [OF appended_valid [OF s3] k(1)] by blast
  have tot: "appended ?b (?sp @ ?k @ ''='' @ value_text lib w) st
               (st4\<lparr>bufs := (bufs st4)(?b := sl)\<rparr>)"
    using appended_trans [OF s1 appended_trans [OF s2 appended_trans [OF s3 s4]]] by simp
  have "appendAttr (Suc n) lib c a keyPref st
          = Some (Inr (st4\<lparr>bufs := (bufs st4)(?b := sl)\<rparr>))"
    using nz k(2) av
    by (cases w) (simp_all add: Let_def a1 r appendAttr.simps)
  then show ?thesis using tot by blast
qed

lemma heap1_eq:
  "heap1 = \<lparr>arrays = (\<lambda>a. [])(1 := replicate 1024 (CHR 0x00)),
            bufs = (\<lambda>b. nil_slice)(2 := \<lparr>base = 1, slen = 0, scap = 1024\<rparr>),
            handlers = Map.empty, old_handlers = Map.empty, bufPool = [], written = [],
            nxt = 3\<rparr>"
  by (simp add: heap1_def allocBuf_def Pool_Get_def bufPool_New_def make_bytes_def heap0_def
        numeral_2_eq_2 numeral_3_eq_3)

lemma heap1_valid: "valid_slice heap1 (bufs heap1 2)"
  by (simp add: heap1_eq valid_slice_def)

lemma heap1_contents: "contents heap1 2 = []"
  by (simp add: heap1_eq contents_def slice_bytes_def)

section \<open>Lemmas on quoting\<close>

lemma safeSet_bytes:
  "map byte_of (''!#$%&'' @ [CHR 0x27] @ ''()*+,-./0123456789:;<=>?@''
       @ ''ABCDEFGHIJKLMNOPQRSTUVWXYZ['' @ '']^_'' @ [CHR 0x60]
       @ ''abcdefghijklmnopqrstuvwxyz{|}~'' @ [CHR 0x7F]) = 33 # [35..<92] @ [93..<128]"
  by (simp add: byte_of_def upt_conv_Cons)

lemma byte_of_eq_iff: "(byte_of a = byte_of b) = (a = b)"
  by (simp add: byte_of_def)

lemma safeSet_iff:
  "safeSet b = (0x21 \<le> byte_of b \<and> byte_of b < 0x80 \<and> b \<noteq> dquote \<and> b \<noteq> bslash)"
proof -
  let ?L = "''!#$%&'' @ [CHR 0x27] @ ''()*+,-./0123456789:;<=>?@''
       @ ''ABCDEFGHIJKLMNOPQRSTUVWXYZ['' @ '']^_'' @ [CHR 0x60]
       @ ''abcdefghijklmnopqrstuvwxyz{|}~'' @ [CHR 0x7F]"
  have "safeSet b = (byte_of b \<in> byte_of ` set ?L)"
    unfolding safeSet_def by (auto simp: byte_of_eq_iff image_iff simp del: set_append set_simps)
  also have "\<dots> = (byte_of b \<in> set (33 # [35..<92] @ [93..<128]))"
    unfolding safeSet_bytes [symmetric] by (simp only: set_map)
  also have "\<dots> = (byte_of b \<in> insert 33 ({35..<92} \<union> {93..<128}))"
    by (simp only: list.set set_append set_upt)
  also have "\<dots> = (0x21 \<le> byte_of b \<and> byte_of b < 0x80 \<and> byte_of b \<noteq> 34 \<and> byte_of b \<noteq> 92)"
    by auto
  also have "\<dots> = (0x21 \<le> byte_of b \<and> byte_of b < 0x80 \<and> b \<noteq> dquote \<and> b \<noteq> bslash)"
    using byte_of_eq_iff [of b dquote] byte_of_eq_iff [of b bslash]
    by (simp add: byte_of_def dquote_def bslash_def)
  finally show ?thesis .
qed


lemma Decode_ascii: "byte_of c < 0x80 \<Longrightarrow> DecodeRuneInString (c # cs) = (byte_of c, 1)"
  by (simp add: DecodeRuneInString.simps)


lemma mod_window:
  fixes n :: nat
  assumes "a * q \<le> n" "n < a * Suc q"
  shows "n mod a = n - a * q"
proof -
  have "n = (n - a * q) + q * a"
    using assms by (simp add: mult.commute)
  then have "n mod a = ((n - a * q) + q * a) mod a"
    by simp
  also have "\<dots> = (n - a * q) mod a"
    by (simp only: mod_mult_self1)
  also have "\<dots> = n - a * q"
    using assms by (intro mod_less) (simp add: less_diff_conv2 add.commute)
  finally show ?thesis .
qed

lemma Decode_nonascii_ge:
  assumes "0x80 \<le> byte_of c" "DecodeRuneInString (c # cs) = (r, w)"
  shows "0x80 \<le> r"
proof -
  define s0 where "s0 = byte_of c"
  define s1 where "s1 = byte_of (cs ! 0)"
  define s2 where "s2 = byte_of (cs ! 1)"
  define s3 where "s3 = byte_of (cs ! 2)"
  have d: "DecodeRuneInString (c # cs) =
     (if s0 < 0x80 then (s0, 1)
      else if s0 < 0xC2 \<or> 0xF4 < s0 then (RuneError, 1)
      else
        if length (c # cs) < (if s0 < 0xE0 then 2 else if s0 < 0xF0 then 3 else 4)
        then (RuneError, 1)
        else
             if s1 < (if s0 = 0xE0 then 0xA0 else if s0 = 0xF0 then 0x90 else 0x80)
                \<or> (if s0 = 0xED then 0x9F else if s0 = 0xF4 then 0x8F else 0xBF) < s1
             then (RuneError, 1)
             else if s0 < 0xE0 then ((s0 mod 0x20) * 0x40 + s1 mod 0x40, 2)
             else
               if s2 < 0x80 \<or> 0xBF < s2 then (RuneError, 1)
               else if s0 < 0xF0 then
                 ((s0 mod 0x10) * 0x1000 + (s1 mod 0x40) * 0x40 + s2 mod 0x40, 3)
               else
                 if s3 < 0x80 \<or> 0xBF < s3 then (RuneError, 1)
                 else ((s0 mod 8) * 0x40000 + (s1 mod 0x40) * 0x1000
                         + (s2 mod 0x40) * 0x40 + s3 mod 0x40, 4))"
    by (simp add: DecodeRuneInString.simps Let_def s0_def s1_def s2_def s3_def)
  have e: "0x80 \<le> RuneError" by (simp add: RuneError_def)
  have m2: "0x80 \<le> (s0 mod 0x20) * 0x40 + x" if "0xC2 \<le> s0" "s0 < 0xE0" for x
  proof -
    have "2 \<le> s0 mod 0x20" using that mod_window [of 32 6 s0] by simp
    then show ?thesis by simp
  qed
  have m3: "0x80 \<le> (s0 mod 0x10) * 0x1000 + (s1 mod 0x40) * 0x40 + x"
    if "0xE0 \<le> s0" "s0 < 0xF0" "\<not> s1 < (if s0 = 0xE0 then 0xA0 else 0x80)" "s1 \<le> 0xBF" for x
  proof (cases "s0 = 0xE0")
    case True
    then have "0xA0 \<le> s1" using that by simp
    then have "32 \<le> s1 mod 0x40" using that(4) mod_window [of 64 2 s1] by simp
    then show ?thesis by simp
  next
    case False
    then have "1 \<le> s0 mod 0x10" using that mod_window [of 16 14 s0] by simp
    then show ?thesis by simp
  qed
  have m4: "0x80 \<le> (s0 mod 8) * 0x40000 + (s1 mod 0x40) * 0x1000 + x + y"
    if "0xF0 \<le> s0" "s0 \<le> 0xF4" "\<not> s1 < (if s0 = 0xF0 then 0x90 else 0x80)" "s1 \<le> 0xBF"
    for x y
  proof (cases "s0 = 0xF0")
    case True
    then have "0x90 \<le> s1" using that by simp
    then have "16 \<le> s1 mod 0x40" using that(4) mod_window [of 64 2 s1] by simp
    then show ?thesis by simp
  next
    case False
    then have "1 \<le> s0 mod 8" using that mod_window [of 8 30 s0] by simp
    then show ?thesis by simp
  qed
  have s0: "0x80 \<le> s0" using assms(1) by (simp add: s0_def)
  show ?thesis
  proof (cases "s0 < 0xC2 \<or> 0xF4 < s0")
    case True
    then show ?thesis using assms(2) s0 e unfolding d by auto
  next
    case False
    then have rng: "0xC2 \<le> s0" "s0 \<le> 0xF4" by auto
    show ?thesis
    proof (cases "s0 < 0xE0")
      case True
      then show ?thesis
        using assms(2) rng e m2 unfolding d by (auto split: if_splits)
    next
      case f1: False
      show ?thesis
      proof (cases "s0 < 0xF0")
        case True
        have b: "s1 \<le> 0xBF" if "\<not> (if s0 = 0xED then 0x9F else 0xBF) < s1"
          using that by (auto split: if_splits)
        show ?thesis
          using assms(2) rng e f1 True m3 [OF _ True] b unfolding d
          by (auto split: if_splits)
      next
        case f2: False
        have b: "s1 \<le> 0xBF" if "\<not> (if s0 = 0xF4 then 0x8F else 0xBF) < s1"
          using that by (auto split: if_splits)
        show ?thesis
          using assms(2) rng e f1 f2 m4 b unfolding d
          by (auto split: if_splits)
      qed
    qed
  qed
qed

lemma ascii_trigger:
  assumes a: "byte_of b < 0x80"
  shows "(b \<noteq> bslash \<and> (b = CHR '' '' \<or> b = CHR ''='' \<or> \<not> safeSet b))
               = quote_rune lib (byte_of b)"
proof -
  have e: "(b = dquote) = (byte_of b = 0x22)" "(b = bslash) = (byte_of b = 0x5C)"
    "(b = CHR '' '') = (byte_of b = 0x20)" "(b = CHR ''='') = (byte_of b = 0x3D)"
    using byte_of_eq_iff [of b dquote] byte_of_eq_iff [of b bslash]
          byte_of_eq_iff [of b "CHR '' ''"] byte_of_eq_iff [of b "CHR ''=''"]
    by (simp_all add: byte_of_def dquote_def bslash_def)
  show ?thesis
    unfolding safeSet_iff quote_rune_def e using a by auto
qed

lemma needsQuoting_from_iff:
  "needsQuoting_from lib s = (\<exists>(r, w) \<in> set (runes_of s). quote_rune lib r)"
proof (induction lib s rule: needsQuoting_from.induct)
  case (1 lib)
  then show ?case by simp
next
  case (2 lib b rest)
  show ?case
  proof (cases "byte_of b < RuneSelf")
    case True
    then have a: "byte_of b < 0x80" by (simp add: RuneSelf_def)
    show ?thesis
      using True 2(1) ascii_trigger [OF a, of lib] by (simp add: Decode_ascii [OF a])
  next
    case False
    then have a: "0x80 \<le> byte_of b" by (simp add: RuneSelf_def)
    obtain r w where d: "DecodeRuneInString (b # rest) = (r, w)"
      by (cases "DecodeRuneInString (b # rest)") auto
    have r: "0x80 \<le> r" by (rule Decode_nonascii_ge [OF a d])
    then have q: "quote_rune lib r
                   = (r = RuneError \<or> unicode_IsSpace lib r \<or> \<not> unicode_IsPrint lib r)"
      by (simp add: quote_rune_def)
    show ?thesis
    proof (cases "r = RuneError \<or> unicode_IsSpace lib r \<or> \<not> unicode_IsPrint lib r")
      case True
      then show ?thesis using False d q by simp
    next
      case f: False
      have "needsQuoting_from lib (drop w (b # rest))
              = (\<exists>(r, w) \<in> set (runes_of (drop w (b # rest))). quote_rune lib r)"
        using 2(2) [OF False d [symmetric] f] by simp
      then show ?thesis using False d q f by simp
    qed
  qed
qed

lemma go_append_bytes:
  assumes v: "valid_slice st sl" and g: "go_append sl bs st = (sl', st')"
  shows "valid_slice st' sl' \<and> slice_bytes st' sl' = slice_bytes st sl @ bs"
proof (cases "slen sl + length bs \<le> scap sl")
  case True
  then show ?thesis
    using v g by (auto simp: go_append_def Let_def valid_slice_def slice_bytes_def)
next
  case False
  then show ?thesis
    using v g by (auto simp: go_append_def Let_def valid_slice_def slice_bytes_def growcap_def)
qed

lemma needsQuoting_iff:
  "needsQuoting lib s = (s = [] \<or> (\<exists>(r, w) \<in> set (runes_of s). quote_rune lib r))"
  by (cases s) (simp_all add: needsQuoting_def needsQuoting_from_iff del: runes_of.simps)

lemma appendEscapedRune_plain:
  assumes "0x20 \<le> byte_of c" "byte_of c \<le> 0x7E" "c \<noteq> dquote" "c \<noteq> bslash"
  shows "appendEscapedRune lib (byte_of c) = [c]"
proof -
  have "byte_of c \<noteq> byte_of dquote" "byte_of c \<noteq> byte_of bslash"
    using assms by (simp_all add: byte_of_eq_iff)
  moreover have "unicode_IsPrint lib (byte_of c)"
    using assms by (simp add: unicode_IsPrint_def)
  moreover have "EncodeRune (byte_of c) = [c]"
    using assms by (simp add: EncodeRune_def) (simp add: byte_of_def)
  ultimately show ?thesis
    by (simp add: appendEscapedRune_def)
qed

lemma quote_from_plain:
  assumes "0x20 \<le> byte_of c" "byte_of c \<le> 0x7E" "c \<noteq> dquote" "c \<noteq> bslash"
  shows "quote_from lib (c # cs) = c # quote_from lib cs"
  using assms appendEscapedRune_plain [OF assms, of lib]
  by (simp add: RuneSelf_def RuneError_def)

section \<open>Lemmas on the composer, the pool and the derivations\<close>

lemma appendValue_Inr_appended:
  assumes "valid_slice st (bufs st b)" "appendValue lib v (bufs st b) st = Inr (sl, st1)"
  shows "appended b (value_text lib v) st (st1\<lparr>bufs := (bufs st1)(b := sl)\<rparr>)"
proof -
  have "go_append (bufs st b) (value_text lib v) st = (sl, st1)"
    using assms(2) by (cases v) (auto simp: appendString_def)
  then show ?thesis
    by (rule go_append_buf [OF assms(1)])
qed

lemma for_attrs_appended:
  assumes step: "\<And>a st st'. valid_slice st (bufs st b) \<Longrightarrow> f a st = Some (Inr st')
                   \<Longrightarrow> \<exists>bs. appended b bs st st'"
  shows "valid_slice st (bufs st b) \<Longrightarrow> for_attrs f as st = Some (Inr st')
           \<Longrightarrow> \<exists>bs. appended b bs st st'"
proof (induction as arbitrary: st)
  case Nil
  then show ?case using appended_refl by auto
next
  case (Cons a as)
  from Cons.prems(2) obtain st1 where f: "f a st = Some (Inr st1)"
    and r: "for_attrs f as st1 = Some (Inr st')"
    by (auto split: option.splits sum.splits)
  obtain xs where x: "appended b xs st st1"
    using step [OF Cons.prems(1) f] by blast
  obtain ys where y: "appended b ys st1 st'"
    using Cons.IH [OF appended_valid [OF x] r] by blast
  show ?case using appended_trans [OF x y] by blast
qed

lemma appendAttr_appended:
  "valid_slice st (bufs st (c_buf c)) \<Longrightarrow> appendAttr n lib c a keyPref st = Some (Inr st')
     \<Longrightarrow> \<exists>bs. appended (c_buf c) bs st st'"
proof (induction n arbitrary: a keyPref st st')
  case 0
  then show ?case by (simp add: appendAttr.simps)
next
  case (Suc n)
  let ?b = "c_buf c"
  define a1 where "a1 = optionalReplaceAttr c (groups (c_h c)) a"
  define w where "w = Resolve lib (Val a1)"
  define kp where "kp = (if length keyPref = 0 then prefix (c_h c) else keyPref)"
  show ?case
  proof (cases "Attr_Equal_zero (Attr (Key a1) w)")
    case True
    then have "st' = st"
      using Suc.prems(2) by (simp add: appendAttr.simps Let_def a1_def w_def)
    then show ?thesis using appended_refl [OF Suc.prems(1)] by auto
  next
    case nz: False
    show ?thesis
    proof (cases "\<exists>attrs. w = GroupValue attrs")
      case True
      then obtain attrs where g: "w = GroupValue attrs" by blast
      show ?thesis
      proof (cases "attrs = []")
        case True
        then have "st' = st"
          using Suc.prems(2) nz g
          by (simp add: appendAttr.simps Let_def a1_def [symmetric] w_def [symmetric])
        then show ?thesis using appended_refl [OF Suc.prems(1)] by auto
      next
        case False
        then have "for_attrs (\<lambda>ga. appendAttr n lib c ga (mergePrefWithKey kp (Key a1)))
                     attrs st = Some (Inr st')"
          using Suc.prems(2) nz g
          by (simp add: appendAttr.simps Let_def a1_def [symmetric] w_def [symmetric] kp_def)
        then show ?thesis
          using for_attrs_appended [where f = "\<lambda>ga. appendAttr n lib c ga
                                                   (mergePrefWithKey kp (Key a1))"
                  and b = ?b, OF _ Suc.prems(1)] Suc.IH
          by blast
      qed
    next
      case ng: False
      let ?st1 = "addSpace c (0 < bufLen c st) st"
      let ?st2 = "writeString ?b (mergePrefWithKey kp (Key a1)) ?st1"
      let ?st3 = "writeByte ?b (CHR ''='') ?st2"
      have e: "appendAttr (Suc n) lib c a keyPref st =
                 (case appendValue lib w (bufs ?st3 ?b) ?st3 of
                    Inl e \<Rightarrow> Some (Inl e)
                  | Inr (sl, st4) \<Rightarrow> Some (Inr (st4\<lparr>bufs := (bufs st4)(?b := sl)\<rparr>)))"
        using nz ng
        by (cases w)
           (simp_all add: appendAttr.simps Let_def a1_def [symmetric] w_def [symmetric] kp_def)
      then obtain sl st4 where av: "appendValue lib w (bufs ?st3 ?b) ?st3 = Inr (sl, st4)"
        and s': "st' = st4\<lparr>bufs := (bufs st4)(?b := sl)\<rparr>"
        using Suc.prems(2) by (auto split: sum.splits)
      have s1: "appended ?b (if 0 < bufLen c st then '' '' else []) st ?st1"
        by (rule addSpace_appended [OF Suc.prems(1)])
      have s2: "appended ?b (mergePrefWithKey kp (Key a1)) ?st1 ?st2"
        by (rule writeString_appended [OF appended_valid [OF s1]])
      have s3: "appended ?b ''='' ?st2 ?st3"
        by (rule writeByte_appended [OF appended_valid [OF s2]])
      have s4: "appended ?b (value_text lib w) ?st3 st'"
        unfolding s' by (rule appendValue_Inr_appended [OF appended_valid [OF s3] av])
      show ?thesis
        using appended_trans [OF s1 appended_trans [OF s2 appended_trans [OF s3 s4]]] by blast
    qed
  qed
qed

lemma bufPool_New_spec:
  assumes "bufPool_New st = (b, st0)"
  shows "b = Suc (nxt st) \<and> nxt st0 = Suc (Suc (nxt st)) \<and>
         bufs st0 = (bufs st)(b := \<lparr>base = nxt st, slen = 0, scap = 1024\<rparr>) \<and>
         arrays st0 = (arrays st)(nxt st := replicate 1024 (CHR 0x00)) \<and>
         handlers st0 = handlers st \<and> old_handlers st0 = old_handlers st \<and>
         bufPool st0 = bufPool st \<and> written st0 = written st"
  using assms by (auto simp: bufPool_New_def make_bytes_def)

lemma pool_ok_mono:
  assumes p: "pool_ok st"
    and pl: "bufPool st' = bufPool st"
    and n: "nxt st \<le> nxt st'"
    and bf: "\<And>q. q \<in> set (bufPool st) \<Longrightarrow> bufs st' q = bufs st q"
    and ln: "\<And>a. a < nxt st \<Longrightarrow> length (arrays st' a) = length (arrays st a)"
  shows "pool_ok st'"
  using assms unfolding pool_ok_def valid_slice_def
  by (metis (no_types, lifting) less_le_trans)

lemma allocBuf_spec:
  assumes p: "pool_ok st" and a: "allocBuf pick st = (b, st0)"
  shows "valid_slice st0 (bufs st0 b) \<and> slen (bufs st0 b) = 0 \<and> b < nxt st0 \<and>
         b \<notin> set (bufPool st0) \<and> pool_ok st0 \<and> set (bufPool st0) \<subseteq> set (bufPool st) \<and>
         handlers st0 = handlers st \<and> old_handlers st0 = old_handlers st \<and>
         written st0 = written st \<and> nxt st \<le> nxt st0 \<and>
         (\<forall>a. a < nxt st \<longrightarrow> arrays st0 a = arrays st a) \<and>
         (\<forall>q. q \<noteq> b \<longrightarrow> bufs st0 q = bufs st q) \<and>
         ((b \<in> set (bufPool st) \<and> bufs st0 b = bufs st b) \<or> nxt st \<le> base (bufs st0 b))"
proof (cases "\<exists>i. pick = Some i \<and> i < length (bufPool st)")
  case True
  then obtain i where i: "pick = Some i" "i < length (bufPool st)" by blast
  have b: "b = bufPool st ! i"
    and s: "st0 = st\<lparr>bufPool := take i (bufPool st) @ drop (Suc i) (bufPool st)\<rparr>"
    using a i by (simp_all add: allocBuf_def Pool_Get_def)
  have d: "distinct (bufPool st)" using p by (simp add: pool_ok_def)
  have m: "b \<in> set (bufPool st)" using b i by simp
  have sub: "set (take i (bufPool st) @ drop (Suc i) (bufPool st)) \<subseteq> set (bufPool st)"
    by (auto dest: in_set_takeD in_set_dropD)
  have nb: "b \<notin> set (take i (bufPool st) @ drop (Suc i) (bufPool st))"
  proof -
    have "bufPool st = take i (bufPool st) @ b # drop (Suc i) (bufPool st)"
      using i b by (simp add: id_take_nth_drop)
    then have "distinct (take i (bufPool st) @ b # drop (Suc i) (bufPool st))"
      using d by simp
    then show ?thesis by auto
  qed
  have d': "distinct (take i (bufPool st) @ drop (Suc i) (bufPool st))"
  proof -
    have "bufPool st = take i (bufPool st) @ b # drop (Suc i) (bufPool st)"
      using i b by (simp add: id_take_nth_drop)
    then have "distinct (take i (bufPool st) @ b # drop (Suc i) (bufPool st))"
      using d by simp
    then show ?thesis by auto
  qed
  have pb: "b < nxt st \<and> valid_slice st (bufs st b) \<and> slen (bufs st b) = 0"
    using p m by (simp add: pool_ok_def)
  have p0: "pool_ok st0"
    using p sub d' unfolding pool_ok_def s valid_slice_def by auto
  show ?thesis
    using pb nb p0 sub m by (simp add: s valid_slice_def)
next
  case False
  then have n: "bufPool_New st = (b, st0)"
    using a by (auto simp: allocBuf_def Pool_Get_def split: option.splits if_splits)
  note f = bufPool_New_spec [OF n]
  have nb: "b \<notin> set (bufPool st)"
    using p f by (auto simp: pool_ok_def)
  have p0: "pool_ok st0"
  proof (rule pool_ok_mono [OF p])
    show "bufPool st0 = bufPool st" using f by simp
    show "nxt st \<le> nxt st0" using f by simp
    show "bufs st0 q = bufs st q" if "q \<in> set (bufPool st)" for q
      using that nb f by auto
    show "length (arrays st0 a) = length (arrays st a)" if "a < nxt st" for a
      using that f by simp
  qed
  show ?thesis
    using f nb p0 by (simp add: valid_slice_def)
qed

lemma appended_pool_ok:
  assumes p: "pool_ok st" and nb: "b \<notin> set (bufPool st)" and a: "appended b bs st st'"
  shows "pool_ok st'"
proof (rule pool_ok_mono [OF p])
  show "bufPool st' = bufPool st" using a by (simp add: appended_def)
  show "nxt st \<le> nxt st'" using a by (simp add: appended_def)
  show "bufs st' q = bufs st q" if "q \<in> set (bufPool st)" for q
    using that nb a by (auto simp: appended_def)
  show "length (arrays st' x) = length (arrays st x)" if "x < nxt st" for x
    using that a by (simp add: appended_def)
qed

lemma free_pool_ok:
  assumes p: "pool_ok st" and nb: "b \<notin> set (bufPool st)"
    and v: "valid_slice st (bufs st b)" and l: "b < nxt st"
  shows "pool_ok (free b st)"
  using assms
  by (auto simp: free_def Pool_Put_def pool_ok_def valid_slice_def)

lemma drop_Cons_replicate: "drop n (x # replicate n x) = [x]"
  by (induction n) auto

lemma groups_make_copy_set:
  "(take (min (length (replicate (length g + 1) ([]::string))) (length g)) g
      @ drop (min (length (replicate (length g + 1) ([]::string))) (length g))
          (replicate (length g + 1) []))
     [length (take (min (length (replicate (length g + 1) ([]::string))) (length g)) g
        @ drop (min (length (replicate (length g + 1) ([]::string))) (length g))
            (replicate (length g + 1) [])) - 1 := name] = g @ [name]"
  by (simp add: drop_Cons_replicate)

lemma buffer_phase_conj:
  assumes p: "pool_ok st" and h: "handler_ok st hp h"
    and a: "allocBuf pick st = (b, st0)" and w: "appended b bs st0 st3"
  shows "pool_ok st3 \<and> b \<notin> set (bufPool st3) \<and> valid_slice st3 (bufs st3 b) \<and>
         b < nxt st3 \<and> handlers st3 = handlers st \<and> old_handlers st3 = old_handlers st \<and>
         written st3 = written st \<and> nxt st \<le> nxt st3 \<and> contents st3 b = bs \<and>
         arrays st3 (base (preformatted h)) = arrays st (base (preformatted h)) \<and>
         (\<forall>x. x < nxt st \<longrightarrow> length (arrays st3 x) = length (arrays st x)) \<and>
         base (bufs st3 b) \<noteq> base (preformatted h) \<and>
         set (bufPool st3) \<subseteq> set (bufPool st) \<and>
         (\<forall>q \<in> set (bufPool st3). bufs st3 q = bufs st q)"
proof -
  note s = allocBuf_spec [OF p a]
  have hb: "base (preformatted h) < nxt st"
    using h by (simp add: handler_ok_def valid_slice_def)
  have nb0: "base (bufs st0 b) \<noteq> base (preformatted h)"
    using s h hb by (auto simp: handler_ok_def)
  have c0: "contents st0 b = []"
    using s by (simp add: contents_def slice_bytes_def)
  have p3: "pool_ok st3"
    using appended_pool_ok [OF _ _ w] s by blast
  have nb3: "base (bufs st3 b) \<noteq> base (preformatted h)"
    using w nb0 hb s by (auto simp: appended_def)
  have ar: "arrays st3 (base (preformatted h)) = arrays st (base (preformatted h))"
  proof -
    have "arrays st3 (base (preformatted h)) = arrays st0 (base (preformatted h))"
      using w nb0 hb s by (auto simp: appended_def)
    then show ?thesis using s hb by simp
  qed
  have ln: "length (arrays st3 x) = length (arrays st x)" if "x < nxt st" for x
  proof -
    have "length (arrays st3 x) = length (arrays st0 x)"
      using w that s by (auto simp: appended_def)
    then show ?thesis using s that by simp
  qed
  have bq: "bufs st3 q = bufs st q" if "q \<in> set (bufPool st3)" for q
  proof -
    have "q \<in> set (bufPool st0)" using that w by (simp add: appended_def)
    then have "q \<noteq> b" using s by auto
    then show ?thesis using w s by (simp add: appended_def)
  qed
  have "b < nxt st3" using s w by (auto simp: appended_def)
  moreover have "contents st3 b = bs" using w c0 by (simp add: appended_def)
  moreover have "b \<notin> set (bufPool st3)" using s w by (simp add: appended_def)
  moreover have "set (bufPool st3) \<subseteq> set (bufPool st)" using s w by (simp add: appended_def)
  moreover have "handlers st3 = handlers st" "old_handlers st3 = old_handlers st"
    "written st3 = written st" "nxt st \<le> nxt st3"
    using s w by (auto simp: appended_def)
  ultimately show ?thesis
    using p3 nb3 ar ln bq appended_valid [OF w] by blast
qed

lemma buffer_phase:
  assumes "pool_ok st" and "handler_ok st hp h"
    and "allocBuf pick st = (b, st0)" and "appended b bs st0 st3"
  shows "pool_ok st3" and "b \<notin> set (bufPool st3)" and "valid_slice st3 (bufs st3 b)"
    and "b < nxt st3" and "handlers st3 = handlers st"
    and "old_handlers st3 = old_handlers st" and "written st3 = written st"
    and "nxt st \<le> nxt st3" and "contents st3 b = bs"
    and "arrays st3 (base (preformatted h)) = arrays st (base (preformatted h))"
    and "\<And>x. x < nxt st \<Longrightarrow> length (arrays st3 x) = length (arrays st x)"
    and "base (bufs st3 b) \<noteq> base (preformatted h)"
    and "set (bufPool st3) \<subseteq> set (bufPool st)"
    and "\<And>q. q \<in> set (bufPool st3) \<Longrightarrow> bufs st3 q = bufs st q"
  using buffer_phase_conj [OF assms] by blast+

lemma finish_phase:
  assumes p3: "pool_ok st3" and nb: "b \<notin> set (bufPool st3)"
    and v: "valid_slice st3 (bufs st3 b)" and l: "b < nxt st3"
    and st': "alloc_handler h3 (free b st3) = (hp2, st')"
  shows "hp2 = nxt st3 \<and> pool_ok st' \<and> handlers st' = (handlers st3)(hp2 \<mapsto> h3) \<and>
         old_handlers st' = old_handlers st3 \<and> written st' = written st3 \<and>
         arrays st' = arrays st3 \<and> nxt st' = Suc (nxt st3) \<and>
         set (bufPool st') \<subseteq> insert b (set (bufPool st3)) \<and>
         (\<forall>q. base (bufs st' q) = base (bufs st3 q))"
proof -
  have pf: "pool_ok (free b st3)"
    by (rule free_pool_ok [OF p3 nb v l])
  have e: "hp2 = nxt (free b st3)"
    "st' = (free b st3)\<lparr>handlers := (handlers (free b st3))(nxt (free b st3) \<mapsto> h3),
                          nxt := Suc (nxt (free b st3))\<rparr>"
    using st' by (auto simp: alloc_handler_def)
  have f: "nxt (free b st3) = nxt st3" "handlers (free b st3) = handlers st3"
    "old_handlers (free b st3) = old_handlers st3" "written (free b st3) = written st3"
    "arrays (free b st3) = arrays st3"
    "set (bufPool (free b st3)) \<subseteq> insert b (set (bufPool st3))"
    "\<And>q. base (bufs (free b st3) q) = base (bufs st3 q)"
    by (auto simp: free_def Pool_Put_def)
  have "pool_ok st'"
    by (rule pool_ok_mono [OF pf]) (simp_all add: e)
  then show ?thesis
    using f by (simp add: e)
qed

lemma withGroup_spec:
  assumes p: "pool_ok st" and h: "handler_ok st hp h" and n: "name \<noteq> []"
  shows "\<exists>hp2 st' h2. withGroup pick hp name st = Inr (hp2, st') \<and> hp \<noteq> hp2 \<and>
     h2 = h\<lparr>prefix := (if prefix h = [] then name else prefix h @ ''.'' @ name),
            groups := groups h @ [name]\<rparr> \<and>
     handlers st' = (handlers st)(hp2 \<mapsto> h2) \<and>
     old_handlers st' = old_handlers st \<and> written st' = written st \<and>
     pool_ok st' \<and> handler_ok st' hp h \<and> handler_ok st' hp2 h2 \<and>
     slice_bytes st' (preformatted h) = slice_bytes st (preformatted h)"
proof -
  obtain b st0 where a: "allocBuf pick st = (b, st0)"
    by (cases "allocBuf pick st") auto
  note s = allocBuf_spec [OF p a]
  define st1 where "st1 = writeString b (prefix h) st0"
  define st2 where "st2 = (if 0 < slen (bufs st1 b) then writeByte b (CHR ''.'') st1 else st1)"
  define st3 where "st3 = writeString b name st2"
  define pfx where "pfx = (if prefix h = [] then name else prefix h @ ''.'' @ name)"
  define h2 where "h2 = h\<lparr>prefix := pfx, groups := groups h @ [name]\<rparr>"
  have c0: "contents st0 b = []"
    using s by (simp add: contents_def slice_bytes_def)
  have s1: "appended b (prefix h) st0 st1"
    unfolding st1_def using s by (intro writeString_appended) simp
  have l1: "slen (bufs st1 b) = length (prefix h)"
    using length_contents [OF appended_valid [OF s1]] appended_contents [OF s1] c0 by simp
  have s2: "appended b (if prefix h = [] then [] else ''.'') st1 st2"
    unfolding st2_def using l1 writeByte_appended [OF appended_valid [OF s1]]
      appended_refl [OF appended_valid [OF s1]]
    by auto
  have s3: "appended b name st2 st3"
    unfolding st3_def by (rule writeString_appended [OF appended_valid [OF s2]])
  have w: "appended b pfx st0 st3"
    using appended_trans [OF s1 appended_trans [OF s2 s3]] by (cases "prefix h = []") (simp_all add: pfx_def)
  note bp = buffer_phase_conj [OF p h a w]
  obtain hp2 st' where fin: "alloc_handler h2 (free b st3) = (hp2, st')"
    by (cases "alloc_handler h2 (free b st3)") auto
  have hh: "handlers st hp = Some h" "hp < nxt st"
    using h by (simp_all add: handler_ok_def)
  have run0: "withGroup pick hp name st
      = Inr (alloc_handler (h\<lparr>prefix := contents st3 b, groups := groups h @ [name]\<rparr>)
               (free b st3))"
    unfolding st3_def st2_def st1_def using n hh a
    by (simp add: withGroup_def Let_def drop_Cons_replicate)
  have "contents st3 b = pfx"
    using bp by simp
  then have run: "withGroup pick hp name st = Inr (hp2, st')"
    using run0 fin by (simp add: h2_def)
  have fp: "hp2 = nxt st3" "pool_ok st'" "handlers st' = (handlers st3)(hp2 \<mapsto> h2)"
    "old_handlers st' = old_handlers st3" "written st' = written st3"
    "arrays st' = arrays st3" "nxt st' = Suc (nxt st3)"
    "set (bufPool st') \<subseteq> insert b (set (bufPool st3))"
    "\<And>q. base (bufs st' q) = base (bufs st3 q)"
    using finish_phase [OF _ _ _ _ fin] bp by blast+
  have ne: "hp \<noteq> hp2"
    using hh bp fp(1) by simp
  have dj: "base (bufs st' q) \<noteq> base (preformatted h)" if "q \<in> set (bufPool st')" for q
  proof (cases "q = b")
    case True
    then show ?thesis using fp(9) bp by simp
  next
    case False
    then have "q \<in> set (bufPool st3)" using that fp(8) by auto
    then have "bufs st3 q = bufs st q" "q \<in> set (bufPool st)" using bp by auto
    then show ?thesis using h fp(9) [of q] by (simp add: handler_ok_def)
  qed
  have vs: "valid_slice st' (preformatted h)"
    using h bp fp by (auto simp: handler_ok_def valid_slice_def)
  have ok1: "handler_ok st' hp h"
    using hh ne fp bp vs dj by (simp add: handler_ok_def)
  have ok2: "handler_ok st' hp2 h2"
    using fp bp vs dj by (simp add: handler_ok_def h2_def)
  have by1: "slice_bytes st' (preformatted h) = slice_bytes st (preformatted h)"
    using fp bp by (simp add: slice_bytes_def)
  show ?thesis
    using run ne fp bp ok1 ok2 by1 unfolding h2_def pfx_def by simp
qed


lemma heapH_ok: "pool_ok heapH" "handler_ok heapH 2 hP"
  by (simp_all add: pool_ok_def handler_ok_def heapH_def hP_def valid_slice_def)

lemma heap1_pool_ok: "pool_ok heap1"
  by (simp add: pool_ok_def heap1_eq)

lemma dot_join_Cons: "dot_join ((p @ CHR ''.'' # n) # R) = p @ CHR ''.'' # dot_join (n # R)"
  by (cases R) simp_all

lemma dot_join_step:
  "n \<noteq> [] \<Longrightarrow>
   dot_join (filter (\<lambda>s. s \<noteq> []) ((if p = [] then n else p @ ''.'' @ n) # rest))
     = dot_join (filter (\<lambda>s. s \<noteq> []) (p # n # rest))"
  by (simp add: dot_join_Cons)

lemma withGroups_spec:
  "pool_ok st \<Longrightarrow> handler_ok st hp h \<Longrightarrow>
   \<exists>hp' st' h'. withGroups hp pns st = Inr (hp', st') \<and>
      prefix h' = dot_join (filter (\<lambda>s. s \<noteq> []) (prefix h # map snd pns)) \<and>
      groups h' = groups h @ filter (\<lambda>s. s \<noteq> []) (map snd pns) \<and>
      pool_ok st' \<and> handler_ok st' hp' h'"
proof (induction pns arbitrary: st hp h)
  case Nil
  then show ?case by auto
next
  case (Cons pn pns)
  obtain pick name where pn: "pn = (pick, name)" by (cases pn) auto
  show ?case
  proof (cases "name = []")
    case True
    then have weq: "withGroups hp (pn # pns) st = withGroups hp pns st"
      by (simp add: pn withGroup_def)
    have e: "filter (\<lambda>s. s \<noteq> []) (prefix h # map snd (pn # pns))
               = filter (\<lambda>s. s \<noteq> []) (prefix h # map snd pns)"
      "filter (\<lambda>s. s \<noteq> []) (map snd (pn # pns)) = filter (\<lambda>s. s \<noteq> []) (map snd pns)"
      using True by (simp_all add: pn)
    show ?thesis
      unfolding e weq using Cons.IH [OF Cons.prems] .
  next
    case False
    define h2 where "h2 = h\<lparr>prefix := (if prefix h = [] then name else prefix h @ ''.'' @ name),
                             groups := groups h @ [name]\<rparr>"
    obtain hp2 st2 where w: "withGroup pick hp name st = Inr (hp2, st2)"
      and ok: "pool_ok st2" "handler_ok st2 hp2 h2"
      using withGroup_spec [OF Cons.prems False, of pick] unfolding h2_def by blast
    obtain hp' st' h' where r: "withGroups hp2 pns st2 = Inr (hp', st')"
      and f: "prefix h' = dot_join (filter (\<lambda>s. s \<noteq> []) (prefix h2 # map snd pns))"
        "groups h' = groups h2 @ filter (\<lambda>s. s \<noteq> []) (map snd pns)"
        "pool_ok st'" "handler_ok st' hp' h'"
      using Cons.IH [OF ok] by blast
    have "prefix h' = dot_join (filter (\<lambda>s. s \<noteq> []) (prefix h # map snd (pn # pns)))"
      using f(1) dot_join_step [OF False, of "prefix h" "map snd pns"]
      by (simp add: h2_def pn)
    moreover have "groups h' = groups h @ filter (\<lambda>s. s \<noteq> []) (map snd (pn # pns))"
      using f(2) False by (simp add: h2_def pn)
    moreover have "withGroups hp (pn # pns) st = Inr (hp', st')"
      using w r by (simp add: pn)
    ultimately show ?thesis
      using f(3) f(4) by blast
  qed
qed

lemma New_spec:
  "case New w ops st of (hp, st') \<Rightarrow>
     \<exists>h. handlers st' hp = Some h \<and> prefix h = [] \<and> groups h = [] \<and>
         preformatted h = nil_slice"
  by (simp add: New_def alloc_handler_def Let_def)


section \<open>Lemmas on \<^verbatim>\<open>Handle\<close>\<close>

lemma nonempty_buffer:
  assumes "valid_slice st (bufs st b)"
  shows "(0 < slen (bufs st b)) = (contents st b \<noteq> [])"
proof -
  have "slen (bufs st b) = length (contents st b)"
    using length_contents [OF assms] by simp
  then show ?thesis by simp
qed

lemma appended_join:
  "appended b ((if contents st b = [] then [] else '' '') @ tok) st st'
     \<Longrightarrow> contents st' b = join_token (contents st b) tok"
  by (simp add: appended_def join_token_def)

lemma appendTime_appended:
  assumes v: "valid_slice st (bufs st (c_buf c))"
  shows "appended (c_buf c)
           (if IsZero tm \<and> DropTime (opts (c_h c)) then []
            else Time_Format lib tm (TimeFormat (opts (c_h c)))) st (appendTime lib c tm st)"
proof -
  have "appendTime lib c tm st =
          (if IsZero tm \<and> DropTime (opts (c_h c)) then st
           else buffer_write (c_buf c) (Time_Format lib tm (TimeFormat (opts (c_h c)))) st)"
    by (simp add: appendTime_def buffer_write_def)
  then show ?thesis
    using appended_refl [OF v] buffer_write_appended [OF v] by simp
qed

lemma appendLevel_appended:
  assumes v: "valid_slice st (bufs st (c_buf c))" and cz: "Colorize (opts (c_h c)) = Some cz"
  shows "\<exists>st2. appendLevel lib c lv st = Inr st2 \<and>
           appended (c_buf c) ((if contents st (c_buf c) = [] then [] else '' '')
                                 @ level_text lib (opts (c_h c)) lv) st st2"
proof -
  let ?b = "c_buf c"
  let ?sp = "if contents st ?b = [] then [] else '' ''"
  let ?lv = "optionalStringLevel c lv"
  let ?st1 = "addSpace c (0 < slen (bufs st ?b)) st"
  have s1: "appended ?b ?sp st ?st1"
  proof (cases "contents st ?b = []")
    case True
    then show ?thesis
      using addSpace_appended [OF v, of False] nonempty_buffer [OF v] by simp
  next
    case False
    then show ?thesis
      using addSpace_appended [OF v, of True] nonempty_buffer [OF v] by simp
  qed
  note v1 = appended_valid [OF s1]
  show ?thesis
  proof (cases "cz \<and> GOOS lib \<noteq> ''windows''")
    case False
    have e: "appendLevel lib c lv st = Inr (writeString ?b ?lv ?st1)"
      using False cz by (simp add: appendLevel_def Let_def)
    have t: "level_text lib (opts (c_h c)) lv = ?lv"
      using False cz by (auto simp add: level_text_def optionalStringLevel_def Let_def)
    have s2: "appended ?b ?lv ?st1 (writeString ?b ?lv ?st1)"
      by (rule writeString_appended [OF v1])
    have "appended ?b (?sp @ ?lv) st (writeString ?b ?lv ?st1)"
      by (rule appended_trans [OF s1 s2])
    then show ?thesis
      unfolding e t by blast
  next
    case True
    let ?st2 = "writeString ?b (level_color lv) ?st1"
    let ?st3 = "writeString ?b (?lv @ ConsoleColorReset) ?st2"
    have e: "appendLevel lib c lv st = Inr ?st3"
      using True cz by (simp add: appendLevel_def Let_def)
    have t: "level_text lib (opts (c_h c)) lv = level_color lv @ ?lv @ ConsoleColorReset"
      using True cz by (auto simp add: level_text_def optionalStringLevel_def Let_def)
    have s2: "appended ?b (level_color lv) ?st1 ?st2"
      by (rule writeString_appended [OF v1])
    have s3: "appended ?b (?lv @ ConsoleColorReset) ?st2 ?st3"
      by (rule writeString_appended [OF appended_valid [OF s2]])
    have "appended ?b (?sp @ level_color lv @ ?lv @ ConsoleColorReset) st ?st3"
      using appended_trans [OF s1 appended_trans [OF s2 s3]] .
    then show ?thesis
      unfolding e t by blast
  qed
qed

lemma appendSource_appended:
  assumes v: "valid_slice st (bufs st (c_buf c))" and ra: "ReplaceAttr (opts (c_h c)) = None"
  shows "\<exists>st'. appendSource (Suc n) lib c pc st = Some (Inr st') \<and>
           appended (c_buf c)
             (if AddSource (opts (c_h c)) \<and> pc = 0 then
                (if contents st (c_buf c) = [] then [] else '' '')
                  @ mergePrefWithKey (if c_pref c = [] then prefix (c_h c) else c_pref c) SourceKey
                  @ ''='' @ value_text lib (StringValue (source_text lib pc))
              else []) st st'"
proof (cases "AddSource (opts (c_h c)) \<and> pc = 0")
  case False
  then have "appendSource (Suc n) lib c pc st = Some (Inr st)"
    by (auto simp: appendSource_def)
  then show ?thesis
    using False appended_refl [OF v] by auto
next
  case True
  let ?a = "Attr SourceKey (StringValue (source_text lib pc))"
  have a1: "optionalReplaceAttr c (groups (c_h c)) ?a = ?a"
    by (simp add: optionalReplaceAttr_def ra)
  have r: "Resolve lib (Val ?a) = StringValue (source_text lib pc)"
    by (simp add: Resolve_id)
  have nz: "\<not> Attr_Equal_zero (Attr (Key ?a) (StringValue (source_text lib pc)))"
    by (simp add: Attr_Equal_zero_def zero_Attr_def SourceKey_def)
  have k: "Kind_of (StringValue (source_text lib pc)) \<in> recognized_kinds"
    "Kind_of (StringValue (source_text lib pc)) \<noteq> KindGroup"
    by (simp_all add: recognized_kinds_def)
  have e: "appendSource (Suc n) lib c pc st = appendAttr (Suc n) lib c ?a (c_pref c) st"
    using True by (simp add: appendSource_def)
  show ?thesis
    using appendAttr_leaf [OF v a1 r nz k, where n = n and keyPref = "c_pref c"] True
    unfolding e by simp
qed

lemma appendSource_any_appended:
  assumes v: "valid_slice st (bufs st (c_buf c))"
    and r: "appendSource fuel lib c pc st = Some (Inr st')"
  shows "\<exists>bs. appended (c_buf c) bs st st'"
proof (cases "\<not> AddSource (opts (c_h c)) \<or> pc \<noteq> 0")
  case True
  then have "st' = st" using r by (simp add: appendSource_def)
  then show ?thesis using appended_refl [OF v] by blast
next
  case False
  then have "appendAttr fuel lib c (Attr SourceKey (StringValue (source_text lib pc)))
               (c_pref c) st = Some (Inr st')"
    using r by (simp add: appendSource_def)
  then show ?thesis by (rule appendAttr_appended [OF v])
qed

lemma walkAttrs_appended:
  assumes v: "valid_slice st (bufs st (c_buf c))"
    and r: "for_attrs (walkAttrs fuel lib c) as st = Some (Inr st')"
  shows "\<exists>bs. appended (c_buf c) bs st st'"
proof (rule for_attrs_appended [where f = "walkAttrs fuel lib c" and b = "c_buf c"])
  show "\<exists>bs. appended (c_buf c) bs s s'"
    if "valid_slice s (bufs s (c_buf c))" "walkAttrs fuel lib c a s = Some (Inr s')" for a s s'
    using appendAttr_appended [OF that(1)] that(2) by (simp add: walkAttrs_def)
  show "valid_slice st (bufs st (c_buf c))" by (rule v)
  show "for_attrs (walkAttrs fuel lib c) as st = Some (Inr st')" by (rule r)
qed

lemma Handle_composes:
  assumes p: "pool_ok st" and hh: "handlers st hp = Some h"
    and r: "Handle fuel lib pick hp r st = Some (Inr (e, st'))"
  shows "\<exists>b st0 st8 rest.
           allocBuf pick st = (b, st0) \<and>
           appended b
             (join_token
                (if IsZero (rTime r) \<and> DropTime (opts h) then []
                 else Time_Format lib (rTime r) (TimeFormat (opts h)))
                (level_text lib (opts h) (rLevel r)) @ rest) st0 st8 \<and>
           contents st8 b =
             join_token
                (if IsZero (rTime r) \<and> DropTime (opts h) then []
                 else Time_Format lib (rTime r) (TimeFormat (opts h)))
                (level_text lib (opts h) (rLevel r)) @ rest \<and>
           e = Write_error lib (out h) (contents st8 b) \<and>
           st' = free b (st8\<lparr>written := written st8 @ [(out h, contents st8 b)]\<rparr>)"
proof -
  obtain b st0 where a: "allocBuf pick st = (b, st0)"
    by (cases "allocBuf pick st") auto
  note s = allocBuf_spec [OF p a]
  define cm where "cm = \<lparr>c_buf = b, c_h = h, c_pref = []\<rparr>"
  have cb: "c_buf cm = b" "c_h cm = h" by (simp_all add: cm_def)
  have nc: "newComposer pick h st = (cm, st0)"
    using a by (simp add: newComposer_def cm_def)
  let ?tm = "if IsZero (rTime r) \<and> DropTime (opts h) then []
             else Time_Format lib (rTime r) (TimeFormat (opts h))"
  let ?lv = "level_text lib (opts h) (rLevel r)"
  let ?st1 = "appendTime lib cm (rTime r) st0"
  have v0: "valid_slice st0 (bufs st0 b)" using s by simp
  have c0: "contents st0 b = []"
    using s by (simp add: contents_def slice_bytes_def)
  have t1: "appended b ?tm st0 ?st1"
    by (rule appendTime_appended [where c = cm, unfolded cb, OF v0])
  have c1: "contents ?st1 b = ?tm"
    using appended_contents [OF t1] c0 by simp
  have H1: "Handle fuel lib pick hp r st =
      (case appendLevel lib cm (rLevel r) ?st1 of
         Inl e \<Rightarrow> Some (Inl e)
       | Inr st2 \<Rightarrow>
          let st3 = (if 0 < length (rMessage r) then
                       writeString (c_buf cm) (rMessage r)
                         (addSpace cm (0 < bufLen cm st2) st2)
                     else st2)
          in (case appendSource fuel lib cm (rPC r) st3 of
                None \<Rightarrow> None
              | Some (Inl e) \<Rightarrow> Some (Inl e)
              | Some (Inr st4) \<Rightarrow>
                 let st5 = addSpace cm (0 < bufLen cm st4 \<and> 0 < slen (preformatted h)) st4;
                     st6 = buffer_write (c_buf cm) (slice_bytes st5 (preformatted h)) st5
                 in (case (if 0 < length (rAttrs r) then
                             for_attrs (walkAttrs fuel lib cm) (rAttrs r) st6
                           else Some (Inr st6)) of
                       None \<Rightarrow> None
                     | Some (Inl e) \<Rightarrow> Some (Inl e)
                     | Some (Inr st7) \<Rightarrow>
                        let st8 = writeString (c_buf cm) [CHR 0x0A] st7;
                            line = contents st8 (c_buf cm);
                            st9 = st8\<lparr>written := written st8 @ [(out h, line)]\<rparr>
                        in Some (Inr (Write_error lib (out h) line, destruct cm st9)))))"
    by (simp add: Handle_def hh nc)
  obtain st2 where al: "appendLevel lib cm (rLevel r) ?st1 = Inr st2"
    using r unfolding H1 by (cases "appendLevel lib cm (rLevel r) ?st1") auto
  obtain cz where cz: "Colorize (opts h) = Some cz"
    using al by (cases "Colorize (opts h)") (simp_all add: appendLevel_def cb Let_def)
  have l2: "appended b ((if contents ?st1 b = [] then [] else '' '') @ ?lv) ?st1 st2"
    using appendLevel_appended [where c = cm, unfolded cb, OF appended_valid [OF t1] cz,
            where lib = lib and lv = "rLevel r"] al
    by simp
  have h2: "appended b (join_token ?tm ?lv) st0 st2"
    using appended_trans [OF t1 l2] unfolding c1 by (simp add: join_token_def)
  note v2 = appended_valid [OF h2]
  define st3 where "st3 = (if 0 < length (rMessage r) then
                       writeString (c_buf cm) (rMessage r)
                         (addSpace cm (0 < bufLen cm st2) st2)
                     else st2)"
  have m3: "\<exists>bs. appended b bs st2 st3"
  proof (cases "0 < length (rMessage r)")
    case True
    have x: "appended b (if 0 < bufLen cm st2 then '' '' else []) st2
               (addSpace cm (0 < bufLen cm st2) st2)"
      by (rule addSpace_appended [where c = cm, unfolded cb, OF v2])
    have y: "appended b (rMessage r) (addSpace cm (0 < bufLen cm st2) st2)
               (writeString b (rMessage r) (addSpace cm (0 < bufLen cm st2) st2))"
      by (rule writeString_appended [OF appended_valid [OF x]])
    show ?thesis
      using True appended_trans [OF x y] by (auto simp: st3_def cb)
  next
    case False
    then show ?thesis using appended_refl [OF v2] by (auto simp: st3_def)
  qed
  then obtain bs3 where a3: "appended b bs3 st2 st3" by blast
  note v3 = appended_valid [OF a3]
  have H2: "Handle fuel lib pick hp r st =
      (case appendSource fuel lib cm (rPC r) st3 of
                None \<Rightarrow> None
              | Some (Inl e) \<Rightarrow> Some (Inl e)
              | Some (Inr st4) \<Rightarrow>
                 let st5 = addSpace cm (0 < bufLen cm st4 \<and> 0 < slen (preformatted h)) st4;
                     st6 = buffer_write (c_buf cm) (slice_bytes st5 (preformatted h)) st5
                 in (case (if 0 < length (rAttrs r) then
                             for_attrs (walkAttrs fuel lib cm) (rAttrs r) st6
                           else Some (Inr st6)) of
                       None \<Rightarrow> None
                     | Some (Inl e) \<Rightarrow> Some (Inl e)
                     | Some (Inr st7) \<Rightarrow>
                        let st8 = writeString (c_buf cm) [CHR 0x0A] st7;
                            line = contents st8 (c_buf cm);
                            st9 = st8\<lparr>written := written st8 @ [(out h, line)]\<rparr>
                        in Some (Inr (Write_error lib (out h) line, destruct cm st9))))"
    unfolding H1 al st3_def by (simp add: Let_def)
  obtain st4 where as: "appendSource fuel lib cm (rPC r) st3 = Some (Inr st4)"
    using r unfolding H2
    by (cases "appendSource fuel lib cm (rPC r) st3") (auto split: sum.splits)
  obtain bs4 where a4: "appended b bs4 st3 st4"
    using appendSource_any_appended [where c = cm, unfolded cb, OF v3 as] by blast
  note v4 = appended_valid [OF a4]
  define st5 where "st5 = addSpace cm (0 < bufLen cm st4 \<and> 0 < slen (preformatted h)) st4"
  define st6 where "st6 = buffer_write (c_buf cm) (slice_bytes st5 (preformatted h)) st5"
  have a5: "appended b (if 0 < bufLen cm st4 \<and> 0 < slen (preformatted h) then '' '' else [])
              st4 st5"
    unfolding st5_def by (rule addSpace_appended [where c = cm, unfolded cb, OF v4])
  have a6: "appended b (slice_bytes st5 (preformatted h)) st5 st6"
    unfolding st6_def cb by (rule buffer_write_appended [OF appended_valid [OF a5]])
  note v6 = appended_valid [OF a6]
  have H3: "Handle fuel lib pick hp r st =
                    (case (if 0 < length (rAttrs r) then
                             for_attrs (walkAttrs fuel lib cm) (rAttrs r) st6
                           else Some (Inr st6)) of
                       None \<Rightarrow> None
                     | Some (Inl e) \<Rightarrow> Some (Inl e)
                     | Some (Inr st7) \<Rightarrow>
                        let st8 = writeString (c_buf cm) [CHR 0x0A] st7;
                            line = contents st8 (c_buf cm);
                            st9 = st8\<lparr>written := written st8 @ [(out h, line)]\<rparr>
                        in Some (Inr (Write_error lib (out h) line, destruct cm st9)))"
    unfolding H2 as st6_def st5_def by (simp add: Let_def)
  obtain st7 where fa: "(if 0 < length (rAttrs r) then
                             for_attrs (walkAttrs fuel lib cm) (rAttrs r) st6
                           else Some (Inr st6)) = Some (Inr st7)"
    using r unfolding H3
    by (cases "(if 0 < length (rAttrs r) then
                             for_attrs (walkAttrs fuel lib cm) (rAttrs r) st6
                           else Some (Inr st6))") (auto split: sum.splits)
  have "\<exists>bs. appended b bs st6 st7"
  proof (cases "0 < length (rAttrs r)")
    case True
    then have "for_attrs (walkAttrs fuel lib cm) (rAttrs r) st6 = Some (Inr st7)"
      using fa by simp
    then show ?thesis
      using walkAttrs_appended [where c = cm, unfolded cb, OF v6] by blast
  next
    case False
    then have "st7 = st6" using fa by simp
    then show ?thesis using appended_refl [OF v6] by blast
  qed
  then obtain bs7 where a7: "appended b bs7 st6 st7" by blast
  define st8 where "st8 = writeString b [CHR 0x0A] st7"
  have a8: "appended b [CHR 0x0A] st7 st8"
    unfolding st8_def by (rule writeString_appended [OF appended_valid [OF a7]])
  have res: "e = Write_error lib (out h) (contents st8 b)"
    "st' = free b (st8\<lparr>written := written st8 @ [(out h, contents st8 b)]\<rparr>)"
    using r unfolding H3 fa st8_def by (simp_all add: Let_def cb destruct_def)
  define rest where "rest = bs3 @ bs4
     @ (if 0 < bufLen cm st4 \<and> 0 < slen (preformatted h) then '' '' else [])
     @ slice_bytes st5 (preformatted h) @ bs7 @ [CHR 0x0A]"
  have all: "appended b (join_token ?tm ?lv @ rest) st0 st8"
    using appended_trans [OF h2 appended_trans [OF a3 appended_trans [OF a4
            appended_trans [OF a5 appended_trans [OF a6 appended_trans [OF a7 a8]]]]]]
    by (simp add: rest_def)
  have c8: "contents st8 b = join_token ?tm ?lv @ rest"
    using appended_contents [OF all] c0 by simp
  show ?thesis
    using a all c8 res by blast
qed

lemma Handle_unfold:
  assumes hh: "handlers st hp = Some h" and a: "allocBuf pick st = (b, st0)"
    and cm: "cm = \<lparr>c_buf = b, c_h = h, c_pref = []\<rparr>"
    and al: "appendLevel lib cm (rLevel r) (appendTime lib cm (rTime r) st0) = Inr st2"
    and st3: "st3 = (if 0 < length (rMessage r) then
                       writeString (c_buf cm) (rMessage r)
                         (addSpace cm (0 < bufLen cm st2) st2)
                     else st2)"
    and as: "appendSource fuel lib cm (rPC r) st3 = Some (Inr st4)"
    and st5: "st5 = addSpace cm (0 < bufLen cm st4 \<and> 0 < slen (preformatted h)) st4"
    and st6: "st6 = buffer_write (c_buf cm) (slice_bytes st5 (preformatted h)) st5"
    and fa: "(if 0 < length (rAttrs r) then for_attrs (walkAttrs fuel lib cm) (rAttrs r) st6
              else Some (Inr st6)) = Some (Inr st7)"
    and st8: "st8 = writeString (c_buf cm) [CHR 0x0A] st7"
  shows "Handle fuel lib pick hp r st =
           Some (Inr (Write_error lib (out h) (contents st8 b),
                      free b (st8\<lparr>written := written st8 @ [(out h, contents st8 b)]\<rparr>)))"
proof -
  have cb: "c_buf cm = b" by (simp add: cm)
  have nc: "newComposer pick h st = (cm, st0)"
    using a by (simp add: newComposer_def cm)
  have H1: "Handle fuel lib pick hp r st =
      (case appendLevel lib cm (rLevel r) (appendTime lib cm (rTime r) st0) of
         Inl e \<Rightarrow> Some (Inl e)
       | Inr st2 \<Rightarrow>
          let st3 = (if 0 < length (rMessage r) then
                       writeString (c_buf cm) (rMessage r)
                         (addSpace cm (0 < bufLen cm st2) st2)
                     else st2)
          in (case appendSource fuel lib cm (rPC r) st3 of
                None \<Rightarrow> None
              | Some (Inl e) \<Rightarrow> Some (Inl e)
              | Some (Inr st4) \<Rightarrow>
                 let st5 = addSpace cm (0 < bufLen cm st4 \<and> 0 < slen (preformatted h)) st4;
                     st6 = buffer_write (c_buf cm) (slice_bytes st5 (preformatted h)) st5
                 in (case (if 0 < length (rAttrs r) then
                             for_attrs (walkAttrs fuel lib cm) (rAttrs r) st6
                           else Some (Inr st6)) of
                       None \<Rightarrow> None
                     | Some (Inl e) \<Rightarrow> Some (Inl e)
                     | Some (Inr st7) \<Rightarrow>
                        let st8 = writeString (c_buf cm) [CHR 0x0A] st7;
                            line = contents st8 (c_buf cm);
                            st9 = st8\<lparr>written := written st8 @ [(out h, line)]\<rparr>
                        in Some (Inr (Write_error lib (out h) line, destruct cm st9)))))"
    by (simp add: Handle_def hh nc)
  have H2: "Handle fuel lib pick hp r st =
      (case appendSource fuel lib cm (rPC r) st3 of
                None \<Rightarrow> None
              | Some (Inl e) \<Rightarrow> Some (Inl e)
              | Some (Inr st4) \<Rightarrow>
                 let st5 = addSpace cm (0 < bufLen cm st4 \<and> 0 < slen (preformatted h)) st4;
                     st6 = buffer_write (c_buf cm) (slice_bytes st5 (preformatted h)) st5
                 in (case (if 0 < length (rAttrs r) then
                             for_attrs (walkAttrs fuel lib cm) (rAttrs r) st6
                           else Some (Inr st6)) of
                       None \<Rightarrow> None
                     | Some (Inl e) \<Rightarrow> Some (Inl e)
                     | Some (Inr st7) \<Rightarrow>
                        let st8 = writeString (c_buf cm) [CHR 0x0A] st7;
                            line = contents st8 (c_buf cm);
                            st9 = st8\<lparr>written := written st8 @ [(out h, line)]\<rparr>
                        in Some (Inr (Write_error lib (out h) line, destruct cm st9))))"
    unfolding H1 al st3 by (simp add: Let_def)
  have H3: "Handle fuel lib pick hp r st =
                    (case (if 0 < length (rAttrs r) then
                             for_attrs (walkAttrs fuel lib cm) (rAttrs r) st6
                           else Some (Inr st6)) of
                       None \<Rightarrow> None
                     | Some (Inl e) \<Rightarrow> Some (Inl e)
                     | Some (Inr st7) \<Rightarrow>
                        let st8 = writeString (c_buf cm) [CHR 0x0A] st7;
                            line = contents st8 (c_buf cm);
                            st9 = st8\<lparr>written := written st8 @ [(out h, line)]\<rparr>
                        in Some (Inr (Write_error lib (out h) line, destruct cm st9)))"
    unfolding H2 as st6 st5 by (simp add: Let_def)
  show ?thesis
    unfolding H3 fa st8 by (simp add: Let_def cb destruct_def)
qed

lemma Handle_line:
  assumes p: "pool_ok st" and h: "handler_ok st hp h"
    and cz: "Colorize (opts h) = Some cz" and ra: "ReplaceAttr (opts h) = None"
    and na: "rAttrs r = []"
  shows "\<exists>st'. Handle (Suc n) lib pick hp r st
             = Some (Inr (Write_error lib (out h)
                 (line_text
                    (if IsZero (rTime r) \<and> DropTime (opts h) then []
                     else Time_Format lib (rTime r) (TimeFormat (opts h)))
                    (level_text lib (opts h) (rLevel r))
                    (rMessage r)
                    (if AddSource (opts h) \<and> rPC r = 0 then
                       Some (mergePrefWithKey (prefix h) SourceKey @ ''=''
                               @ value_text lib (StringValue (source_text lib (rPC r))))
                     else None)
                    (slice_bytes st (preformatted h))), st')) \<and>
           written st' = written st @ [(out h,
                 line_text
                    (if IsZero (rTime r) \<and> DropTime (opts h) then []
                     else Time_Format lib (rTime r) (TimeFormat (opts h)))
                    (level_text lib (opts h) (rLevel r))
                    (rMessage r)
                    (if AddSource (opts h) \<and> rPC r = 0 then
                       Some (mergePrefWithKey (prefix h) SourceKey @ ''=''
                               @ value_text lib (StringValue (source_text lib (rPC r))))
                     else None)
                    (slice_bytes st (preformatted h)))]"
proof -
  obtain b st0 where a: "allocBuf pick st = (b, st0)"
    by (cases "allocBuf pick st") auto
  note s = allocBuf_spec [OF p a]
  define cm where "cm = \<lparr>c_buf = b, c_h = h, c_pref = []\<rparr>"
  have cb: "c_buf cm = b" "c_h cm = h" "c_pref cm = []" by (simp_all add: cm_def)
  have hh: "handlers st hp = Some h"
    using h by (simp add: handler_ok_def)
  let ?tm = "if IsZero (rTime r) \<and> DropTime (opts h) then []
             else Time_Format lib (rTime r) (TimeFormat (opts h))"
  let ?lv = "level_text lib (opts h) (rLevel r)"
  let ?tok = "mergePrefWithKey (prefix h) SourceKey @ ''=''
                @ value_text lib (StringValue (source_text lib (rPC r)))"
  define pre where "pre = slice_bytes st (preformatted h)"
  let ?st1 = "appendTime lib cm (rTime r) st0"
  have v0: "valid_slice st0 (bufs st0 b)" using s by simp
  have c0: "contents st0 b = []"
    using s by (simp add: contents_def slice_bytes_def)
  have t1: "appended b ?tm st0 ?st1"
    by (rule appendTime_appended [where c = cm, unfolded cb, OF v0])
  have c1: "contents ?st1 b = ?tm"
    using appended_contents [OF t1] c0 by simp
  obtain st2 where al: "appendLevel lib cm (rLevel r) ?st1 = Inr st2"
    and l2: "appended b ((if contents ?st1 b = [] then [] else '' '') @ ?lv) ?st1 st2"
    using appendLevel_appended [where c = cm, unfolded cb, OF appended_valid [OF t1] cz,
            where lib = lib and lv = "rLevel r"]
    by blast
  define A where "A = join_token ?tm ?lv"
  have h2: "appended b A st0 st2"
    using appended_trans [OF t1 l2] unfolding c1 by (simp add: join_token_def A_def)
  note v2 = appended_valid [OF h2]
  have c2: "contents st2 b = A"
    using appended_contents [OF h2] c0 by simp
  define st3 where "st3 = (if 0 < length (rMessage r) then
                       writeString (c_buf cm) (rMessage r)
                         (addSpace cm (0 < bufLen cm st2) st2)
                     else st2)"
  define B where "B = (if rMessage r = [] then A else join_token A (rMessage r))"
  have a3: "appended b (if rMessage r = [] then []
                        else (if A = [] then [] else '' '') @ rMessage r) st2 st3"
  proof (cases "0 < length (rMessage r)")
    case True
    have e: "(0 < bufLen cm st2) = (A \<noteq> [])"
      using nonempty_buffer [OF v2] c2 by (simp add: bufLen_def cb)
    have x: "appended b (if 0 < bufLen cm st2 then '' '' else []) st2
               (addSpace cm (0 < bufLen cm st2) st2)"
      by (rule addSpace_appended [where c = cm, unfolded cb, OF v2])
    have y: "appended b (rMessage r) (addSpace cm (0 < bufLen cm st2) st2)
               (writeString b (rMessage r) (addSpace cm (0 < bufLen cm st2) st2))"
      by (rule writeString_appended [OF appended_valid [OF x]])
    show ?thesis
      using True appended_trans [OF x y] e by (auto simp: st3_def cb)
  next
    case False
    then show ?thesis using appended_refl [OF v2] by (auto simp: st3_def)
  qed
  have h3: "appended b B st0 st3"
    using appended_trans [OF h2 a3] by (auto simp: B_def join_token_def)
  note v3 = appended_valid [OF h3]
  have c3: "contents st3 b = B"
    using appended_contents [OF h3] c0 by simp
  obtain st4 where as: "appendSource (Suc n) lib cm (rPC r) st3 = Some (Inr st4)"
    and a4: "appended b
             (if AddSource (opts h) \<and> rPC r = 0 then
                (if contents st3 b = [] then [] else '' '')
                  @ mergePrefWithKey (if [] = ([]::string) then prefix h else []) SourceKey
                  @ ''='' @ value_text lib (StringValue (source_text lib (rPC r)))
              else []) st3 st4"
    using appendSource_appended [where c = cm, unfolded cb, OF v3 ra, of n lib "rPC r"]
    by blast
  define C where "C = (if AddSource (opts h) \<and> rPC r = 0 then join_token B ?tok else B)"
  have h4: "appended b C st0 st4"
    using appended_trans [OF h3 a4] unfolding c3 by (auto simp: C_def join_token_def)
  note v4 = appended_valid [OF h4]
  have c4: "contents st4 b = C"
    using appended_contents [OF h4] c0 by simp
  define st5 where "st5 = addSpace cm (0 < bufLen cm st4 \<and> 0 < slen (preformatted h)) st4"
  define st6 where "st6 = buffer_write (c_buf cm) (slice_bytes st5 (preformatted h)) st5"
  have a5: "appended b (if 0 < bufLen cm st4 \<and> 0 < slen (preformatted h) then '' '' else [])
              st4 st5"
    unfolding st5_def by (rule addSpace_appended [where c = cm, unfolded cb, OF v4])
  have h5: "appended b (C @ (if 0 < bufLen cm st4 \<and> 0 < slen (preformatted h) then '' '' else []))
              st0 st5"
    by (rule appended_trans [OF h4 a5])
  have p5: "slice_bytes st5 (preformatted h) = pre"
    using buffer_phase(10) [OF p h a h5] by (simp add: slice_bytes_def pre_def)
  have lp: "(0 < slen (preformatted h)) = (pre \<noteq> [])"
    using h by (auto simp: handler_ok_def valid_slice_def pre_def slice_bytes_def)
  have e4: "(0 < bufLen cm st4) = (C \<noteq> [])"
    using nonempty_buffer [OF v4] c4 by (simp add: bufLen_def cb)
  have a6: "appended b pre st5 st6"
    unfolding st6_def cb p5 by (rule buffer_write_appended [OF appended_valid [OF a5]])
  define D where "D = (if pre = [] then C else join_token C pre)"
  have h6: "appended b D st0 st6"
    using appended_trans [OF h5 a6] unfolding lp e4 by (auto simp: D_def join_token_def)
  have fa: "(if 0 < length (rAttrs r) then for_attrs (walkAttrs (Suc n) lib cm) (rAttrs r) st6
              else Some (Inr st6)) = Some (Inr st6)"
    by (simp add: na)
  define st8 where "st8 = writeString (c_buf cm) [CHR 0x0A] st6"
  have a8: "appended b [CHR 0x0A] st6 st8"
    unfolding st8_def cb by (rule writeString_appended [OF appended_valid [OF h6]])
  have h8: "appended b (D @ [CHR 0x0A]) st0 st8"
    by (rule appended_trans [OF h6 a8])
  have c8: "contents st8 b = D @ [CHR 0x0A]"
    using appended_contents [OF h8] c0 by simp
  have L: "D @ [CHR 0x0A] = line_text ?tm ?lv (rMessage r)
             (if AddSource (opts h) \<and> rPC r = 0 then Some ?tok else None) pre"
    by (simp add: line_text_def Let_def D_def C_def B_def A_def)
  have run: "Handle (Suc n) lib pick hp r st =
           Some (Inr (Write_error lib (out h) (contents st8 b),
                      free b (st8\<lparr>written := written st8 @ [(out h, contents st8 b)]\<rparr>)))"
    by (rule Handle_unfold [OF hh a cm_def al st3_def as st5_def st6_def fa st8_def])
  have w8: "written st8 = written st"
    using h8 s by (simp add: appended_def)
  have "written (free b (st8\<lparr>written := written st8 @ [(out h, contents st8 b)]\<rparr>))
          = written st @ [(out h, contents st8 b)]"
    using w8 by (simp add: free_def Pool_Put_def)
  then show ?thesis
    using run unfolding c8 L pre_def by blast
qed

section \<open>Lemmas on the older draft\<close>

lemma buffer_phase_array:
  assumes p: "pool_ok st" and a: "allocBuf pick st = (b, st0)" and w: "appended b bs st0 st3"
    and x: "x < nxt st" and d: "\<And>q. q \<in> set (bufPool st) \<Longrightarrow> base (bufs st q) \<noteq> x"
  shows "arrays st3 x = arrays st x" and "base (bufs st3 b) \<noteq> x"
proof -
  note s = allocBuf_spec [OF p a]
  have nb0: "base (bufs st0 b) \<noteq> x"
  proof (cases "b \<in> set (bufPool st) \<and> bufs st0 b = bufs st b")
    case True
    then show ?thesis using d [of b] by simp
  next
    case False
    then have "nxt st \<le> base (bufs st0 b)" using s by blast
    then show ?thesis using x by simp
  qed
  have x0: "x < nxt st0" using s x by simp
  have "arrays st3 x = arrays st0 x"
    using w nb0 x0 by (simp add: appended_def)
  then show "arrays st3 x = arrays st x" using s x by simp
  show "base (bufs st3 b) \<noteq> x"
    using w nb0 x0 by (auto simp: appended_def)
qed

lemma old_appendValue_appended:
  assumes "valid_slice st (bufs st b)" "Kind_of v \<in> recognized_kinds"
  shows "\<exists>sl st1. old_appendValue lib v (bufs st b) st = Inr (sl, st1) \<and>
           appended b (old_value_text lib v) st (st1\<lparr>bufs := (bufs st1)(b := sl)\<rparr>)"
proof -
  obtain sl st1 where g: "go_append (bufs st b) (old_value_text lib v) st = (sl, st1)"
    by (cases "go_append (bufs st b) (old_value_text lib v) st") auto
  have "old_appendValue lib v (bufs st b) st = Inr (sl, st1)"
    using assms(2) g
    by (cases v) (auto simp: recognized_kinds_def appendString_def old_value_text_def)
  then show ?thesis
    using go_append_buf [OF assms(1) g] by blast
qed

lemma old_appendAttr_leaf:
  assumes v: "valid_slice st (bufs st buf)"
    and a1: "(case ReplaceAttr (old_opts h) of None \<Rightarrow> a | Some f \<Rightarrow> f [] a) = a1"
    and r: "Resolve lib (Val a1) = w"
    and nz: "\<not> Attr_Equal_zero (Attr (Key a1) w)"
    and k: "Kind_of w \<in> recognized_kinds" "Kind_of w \<noteq> KindGroup"
  shows "\<exists>st'. old_appendAttr (Suc n) lib h buf a keyPref st = Some (Inr st') \<and>
           appended buf
             ((if contents st buf = [] then [] else '' '')
                @ old_mergePrefWithKey keyPref (Key a1) @ ''='' @ old_value_text lib w) st st'"
proof -
  let ?sp = "if contents st buf = [] then [] else '' ''"
  let ?k = "old_mergePrefWithKey keyPref (Key a1) @ ''=''"
  let ?st1 = "writeString buf (old_addSpace (0 < slen (bufs st buf))) st"
  let ?st2 = "writeString buf ?k ?st1"
  have e: "old_addSpace (0 < slen (bufs st buf)) = ?sp"
    using nonempty_buffer [OF v] by (simp add: old_addSpace_def)
  have s1: "appended buf ?sp st ?st1"
    unfolding e by (rule writeString_appended [OF v])
  have s2: "appended buf ?k ?st1 ?st2"
    by (rule writeString_appended [OF appended_valid [OF s1]])
  obtain sl st3 where av: "old_appendValue lib w (bufs ?st2 buf) ?st2 = Inr (sl, st3)"
    and s3: "appended buf (old_value_text lib w) ?st2 (st3\<lparr>bufs := (bufs st3)(buf := sl)\<rparr>)"
    using old_appendValue_appended [OF appended_valid [OF s2] k(1)] by blast
  have tot: "appended buf (?sp @ ?k @ old_value_text lib w) st
               (st3\<lparr>bufs := (bufs st3)(buf := sl)\<rparr>)"
    using appended_trans [OF s1 appended_trans [OF s2 s3]] by simp
  have "old_appendAttr (Suc n) lib h buf a keyPref st
          = Some (Inr (st3\<lparr>bufs := (bufs st3)(buf := sl)\<rparr>))"
    using nz k(2) av
    by (cases w) (simp_all add: Let_def a1 r old_appendAttr.simps)
  then show ?thesis using tot by simp
qed

lemma old_appendLevel_appended:
  assumes v: "valid_slice st (bufs st buf)" and cz: "Colorize (old_opts h) = Some cz"
  shows "appended buf ((if contents st buf = [] then [] else '' '')
                         @ level_text lib (old_opts h) lv) st
           (old_appendLevel lib h buf lv cz st)"
proof -
  let ?sp = "if contents st buf = [] then [] else '' ''"
  let ?lv = "case StringLevel (old_opts h) of Some f \<Rightarrow> f lv | None \<Rightarrow> Level_String lv"
  have e: "old_addSpace (0 < slen (bufs st buf)) = ?sp"
    using nonempty_buffer [OF v] by (simp add: old_addSpace_def)
  show ?thesis
  proof (cases "cz \<and> GOOS lib \<noteq> ''windows''")
    case False
    have x: "old_appendLevel lib h buf lv cz st = writeString buf (?sp @ ?lv) st"
      using False by (simp add: old_appendLevel_def Let_def e)
    have t: "level_text lib (old_opts h) lv = ?lv"
      using False cz by (auto simp add: level_text_def Let_def)
    show ?thesis
      unfolding x t by (rule writeString_appended [OF v])
  next
    case True
    let ?st1 = "writeString buf ?sp st"
    let ?st2 = "writeString buf (level_color lv) ?st1"
    let ?st3 = "writeString buf (?lv @ ConsoleColorReset) ?st2"
    have x: "old_appendLevel lib h buf lv cz st = ?st3"
      using True by (simp add: old_appendLevel_def Let_def e)
    have t: "level_text lib (old_opts h) lv = level_color lv @ ?lv @ ConsoleColorReset"
      using True cz by (auto simp add: level_text_def Let_def)
    have s1: "appended buf ?sp st ?st1"
      by (rule writeString_appended [OF v])
    have s2: "appended buf (level_color lv) ?st1 ?st2"
      by (rule writeString_appended [OF appended_valid [OF s1]])
    have s3: "appended buf (?lv @ ConsoleColorReset) ?st2 ?st3"
      by (rule writeString_appended [OF appended_valid [OF s2]])
    show ?thesis
      unfolding x t using appended_trans [OF s1 appended_trans [OF s2 s3]] .
  qed
qed

lemma old_Handle_line:
  assumes p: "pool_ok st" and h: "old_handler_ok st hp h"
    and cz: "Colorize (old_opts h) = Some cz" and ra: "ReplaceAttr (old_opts h) = None"
    and na: "rAttrs r = []"
  shows "\<exists>st'. old_Handle (Suc n) lib pick hp r st
             = Some (Inr (Write_error lib (old_out h)
                 (line_text
                    (if \<not> IsZero (rTime r) \<and> \<not> DropTime (old_opts h)
                     then Time_Format lib (rTime r) (TimeFormat (old_opts h)) else [])
                    (level_text lib (old_opts h) (rLevel r))
                    (rMessage r)
                    (if AddSource (old_opts h) \<and> rPC r \<noteq> 0 then
                       Some (SourceKey @ ''=''
                               @ old_value_text lib (StringValue (source_text lib (rPC r))))
                     else None)
                    (slice_bytes st (old_preformatted h))), st')) \<and>
           written st' = written st @ [(old_out h,
                 line_text
                    (if \<not> IsZero (rTime r) \<and> \<not> DropTime (old_opts h)
                     then Time_Format lib (rTime r) (TimeFormat (old_opts h)) else [])
                    (level_text lib (old_opts h) (rLevel r))
                    (rMessage r)
                    (if AddSource (old_opts h) \<and> rPC r \<noteq> 0 then
                       Some (SourceKey @ ''=''
                               @ old_value_text lib (StringValue (source_text lib (rPC r))))
                     else None)
                    (slice_bytes st (old_preformatted h)))]"
proof -
  obtain b st0 where a: "allocBuf pick st = (b, st0)"
    by (cases "allocBuf pick st") auto
  note s = allocBuf_spec [OF p a]
  have hh: "old_handlers st hp = Some h"
    using h by (simp add: old_handler_ok_def)
  let ?tm = "if \<not> IsZero (rTime r) \<and> \<not> DropTime (old_opts h)
             then Time_Format lib (rTime r) (TimeFormat (old_opts h)) else []"
  let ?lv = "level_text lib (old_opts h) (rLevel r)"
  let ?src = "Attr SourceKey (StringValue (source_text lib (rPC r)))"
  let ?tok = "SourceKey @ ''='' @ old_value_text lib (StringValue (source_text lib (rPC r)))"
  define pre where "pre = slice_bytes st (old_preformatted h)"
  define st1 where "st1 = (if \<not> IsZero (rTime r) \<and> \<not> DropTime (old_opts h) then
                       (case go_append (bufs st0 b)
                               (Time_Format lib (rTime r) (TimeFormat (old_opts h))) st0
                        of (sl, sta) \<Rightarrow> sta\<lparr>bufs := (bufs sta)(b := sl)\<rparr>)
                     else st0)"
  define st2 where "st2 = old_appendLevel lib h b (rLevel r) cz st1"
  define st3 where "st3 = (if 0 < length (rMessage r) then
                              writeString b
                                (old_addSpace (0 < slen (bufs st2 b)) @ rMessage r) st2
                            else st2)"
  have v0: "valid_slice st0 (bufs st0 b)" using s by simp
  have c0: "contents st0 b = []"
    using s by (simp add: contents_def slice_bytes_def)
  have t1: "appended b ?tm st0 st1"
  proof -
    have "st1 = (if \<not> IsZero (rTime r) \<and> \<not> DropTime (old_opts h)
                 then buffer_write b (Time_Format lib (rTime r) (TimeFormat (old_opts h))) st0
                 else st0)"
      by (simp add: st1_def buffer_write_def)
    then show ?thesis
      using appended_refl [OF v0] buffer_write_appended [OF v0] by simp
  qed
  have c1: "contents st1 b = ?tm"
    using appended_contents [OF t1] c0 by simp
  have l2: "appended b ((if contents st1 b = [] then [] else '' '') @ ?lv) st1 st2"
    unfolding st2_def by (rule old_appendLevel_appended [OF appended_valid [OF t1] cz])
  define A where "A = join_token ?tm ?lv"
  have h2: "appended b A st0 st2"
    using appended_trans [OF t1 l2] unfolding c1 by (simp add: join_token_def A_def)
  note v2 = appended_valid [OF h2]
  have c2: "contents st2 b = A"
    using appended_contents [OF h2] c0 by simp
  define B where "B = (if rMessage r = [] then A else join_token A (rMessage r))"
  have a3: "appended b (if rMessage r = [] then []
                        else (if A = [] then [] else '' '') @ rMessage r) st2 st3"
  proof (cases "0 < length (rMessage r)")
    case True
    have e: "old_addSpace (0 < slen (bufs st2 b)) = (if A = [] then [] else '' '')"
      using nonempty_buffer [OF v2] c2 by (simp add: old_addSpace_def)
    show ?thesis
      using True writeString_appended [OF v2, of "old_addSpace (0 < slen (bufs st2 b)) @ rMessage r"]
      unfolding e by (simp add: st3_def e)
  next
    case False
    then show ?thesis using appended_refl [OF v2] by (auto simp: st3_def)
  qed
  have h3: "appended b B st0 st3"
    using appended_trans [OF h2 a3] by (auto simp: B_def join_token_def)
  note v3 = appended_valid [OF h3]
  have c3: "contents st3 b = B"
    using appended_contents [OF h3] c0 by simp
  have "\<exists>st4. (if AddSource (old_opts h) \<and> rPC r \<noteq> 0 then
                  old_appendAttr (Suc n) lib h b ?src [] st3
                else Some (Inr st3)) = Some (Inr st4) \<and>
          appended b (if AddSource (old_opts h) \<and> rPC r \<noteq> 0
                      then (if B = [] then [] else '' '') @ ?tok else []) st3 st4"
  proof (cases "AddSource (old_opts h) \<and> rPC r \<noteq> 0")
    case False
    then show ?thesis using appended_refl [OF v3] by auto
  next
    case True
    have a1: "(case ReplaceAttr (old_opts h) of None \<Rightarrow> ?src | Some f \<Rightarrow> f [] ?src) = ?src"
      by (simp add: ra)
    have r: "Resolve lib (Val ?src) = StringValue (source_text lib (rPC r))"
      by (simp add: Resolve_id)
    have nz: "\<not> Attr_Equal_zero (Attr (Key ?src) (StringValue (source_text lib (rPC r))))"
      by (simp add: Attr_Equal_zero_def zero_Attr_def SourceKey_def)
    have k: "Kind_of (StringValue (source_text lib (rPC r))) \<in> recognized_kinds"
      "Kind_of (StringValue (source_text lib (rPC r))) \<noteq> KindGroup"
      by (simp_all add: recognized_kinds_def)
    show ?thesis
      using old_appendAttr_leaf [OF v3 a1 r nz k, where n = n and keyPref = "[]"] True
      unfolding c3 by (simp add: old_mergePrefWithKey_def)
  qed
  then obtain st4 where src: "(if AddSource (old_opts h) \<and> rPC r \<noteq> 0 then
                  old_appendAttr (Suc n) lib h b ?src [] st3
                else Some (Inr st3)) = Some (Inr st4)"
    and a4: "appended b (if AddSource (old_opts h) \<and> rPC r \<noteq> 0
                      then (if B = [] then [] else '' '') @ ?tok else []) st3 st4"
    by blast
  define C where "C = (if AddSource (old_opts h) \<and> rPC r \<noteq> 0 then join_token B ?tok else B)"
  have h4: "appended b C st0 st4"
    using appended_trans [OF h3 a4] by (auto simp: C_def join_token_def)
  note v4 = appended_valid [OF h4]
  have c4: "contents st4 b = C"
    using appended_contents [OF h4] c0 by simp
  define st5 where "st5 = writeString b
                            (old_addSpace (0 < slen (bufs st4 b)
                                \<and> 0 < slen (old_preformatted h))) st4"
  define st6 where "st6 = buffer_write b (slice_bytes st5 (old_preformatted h)) st5"
  have a5: "appended b (old_addSpace (0 < slen (bufs st4 b) \<and> 0 < slen (old_preformatted h)))
              st4 st5"
    unfolding st5_def by (rule writeString_appended [OF v4])
  have h5: "appended b (C @ old_addSpace (0 < slen (bufs st4 b)
                                \<and> 0 < slen (old_preformatted h))) st0 st5"
    by (rule appended_trans [OF h4 a5])
  have hb: "base (old_preformatted h) < nxt st"
    "\<And>q. q \<in> set (bufPool st) \<Longrightarrow> base (bufs st q) \<noteq> base (old_preformatted h)"
    using h by (simp_all add: old_handler_ok_def valid_slice_def)
  have p5: "slice_bytes st5 (old_preformatted h) = pre"
    using buffer_phase_array(1) [OF p a h5 hb] by (simp add: slice_bytes_def pre_def)
  have lp: "(0 < slen (old_preformatted h)) = (pre \<noteq> [])"
    using h by (auto simp: old_handler_ok_def valid_slice_def pre_def slice_bytes_def)
  have e4: "(0 < slen (bufs st4 b)) = (C \<noteq> [])"
    using nonempty_buffer [OF v4] c4 by simp
  have a6: "appended b pre st5 st6"
    unfolding st6_def p5 by (rule buffer_write_appended [OF appended_valid [OF a5]])
  define D where "D = (if pre = [] then C else join_token C pre)"
  have h6: "appended b D st0 st6"
    using appended_trans [OF h5 a6] unfolding lp e4
    by (auto simp: D_def join_token_def old_addSpace_def)
  define st8 where "st8 = writeString b [CHR 0x0A] st6"
  have a8: "appended b [CHR 0x0A] st6 st8"
    unfolding st8_def by (rule writeString_appended [OF appended_valid [OF h6]])
  have h8: "appended b (D @ [CHR 0x0A]) st0 st8"
    by (rule appended_trans [OF h6 a8])
  have c8: "contents st8 b = D @ [CHR 0x0A]"
    using appended_contents [OF h8] c0 by simp
  have L: "D @ [CHR 0x0A] = line_text ?tm ?lv (rMessage r)
             (if AddSource (old_opts h) \<and> rPC r \<noteq> 0 then Some ?tok else None) pre"
    by (simp add: line_text_def Let_def D_def C_def B_def A_def)
  have H1: "old_Handle (Suc n) lib pick hp r st =
      (case (if AddSource (old_opts h) \<and> rPC r \<noteq> 0 then
                  old_appendAttr (Suc n) lib h b ?src [] st3
                else Some (Inr st3)) of
                       None \<Rightarrow> None
                     | Some (Inl e) \<Rightarrow> Some (Inl e)
                     | Some (Inr st4) \<Rightarrow>
                        let st5 = writeString b
                                    (old_addSpace (0 < slen (bufs st4 b)
                                        \<and> 0 < slen (old_preformatted h))) st4;
                            st6 = buffer_write b (slice_bytes st5 (old_preformatted h)) st5
                        in (case (if 0 < length (rAttrs r) then
                                    for_attrs
                                      (\<lambda>a sta. old_appendAttr (Suc n) lib h b a
                                                  (slice_bytes sta (old_prefix h)) sta)
                                      (rAttrs r) st6
                                  else Some (Inr st6)) of
                              None \<Rightarrow> None
                            | Some (Inl e) \<Rightarrow> Some (Inl e)
                            | Some (Inr st7) \<Rightarrow>
                               let st8 = writeString b [CHR 0x0A] st7;
                                   line = contents st8 b;
                                   st9 = st8\<lparr>written := written st8 @ [(old_out h, line)]\<rparr>
                               in Some (Inr (Write_error lib (old_out h) line,
                                             free b st9))))"
    unfolding st3_def st2_def st1_def by (simp add: old_Handle_def hh a cz Let_def)
  have run: "old_Handle (Suc n) lib pick hp r st =
           Some (Inr (Write_error lib (old_out h) (contents st8 b),
                      free b (st8\<lparr>written := written st8 @ [(old_out h, contents st8 b)]\<rparr>)))"
    unfolding H1 src st8_def st6_def st5_def by (simp add: Let_def na)
  have w8: "written st8 = written st"
    using h8 s by (simp add: appended_def)
  have "written (free b (st8\<lparr>written := written st8 @ [(old_out h, contents st8 b)]\<rparr>))
          = written st @ [(old_out h, contents st8 b)]"
    using w8 by (simp add: free_def Pool_Put_def)
  then show ?thesis
    using run unfolding c8 L pre_def by blast
qed

lemma heapR_ok:
  "pool_ok heapR" "handler_ok heapR 1 hT" "handler_ok heapR 2 hS"
  "old_handler_ok heapR 3 ohT" "old_handler_ok heapR 4 ohS"
  by (simp_all add: pool_ok_def handler_ok_def old_handler_ok_def heapR_def heap0_def hT_def
        hS_def ohT_def ohS_def h0_def oh0_def valid_slice_def nil_slice_def)

lemma join_token_Nil: "join_token [] tok = tok"
  by (simp add: join_token_def)

lemma line_text_head:
  "\<exists>rest. line_text tm lvl msg src pre = join_token tm lvl @ rest"
  by (auto simp: line_text_def join_token_def Let_def split: option.splits)

section \<open>The claims\<close>

text \<open>
  C8. \<^verbatim>\<open>WithGroup("")\<close> and \<^verbatim>\<open>WithAttrs\<close> of an empty list return the receiver's own
  pointer and leave the store as it was, whatever the receiver, in both drafts: no new
  handler object, no field written. (For \<^verbatim>\<open>WithAttrs\<close> the result does not depend on
  the fuel: the check comes before any composition.)
\<close>

theorem noop_derivation_returns_receiver:
  "withGroup pick hp [] st = Inr (hp, st) \<and>
   WithGroup pick hp [] st = Inr (hp, st) \<and>
   withAttrs fuel lib pick hp [] st = Some (Inr (hp, st)) \<and>
   WithAttrs fuel lib pick hp [] st = Some (Inr (hp, st)) \<and>
   old_WithGroup hp [] st = Inr (hp, st) \<and>
   old_WithAttrs fuel lib pick hp [] st = Some (Inr (hp, st))"
  by (simp add: withGroup_def WithGroup_def withAttrs_def WithAttrs_def old_WithGroup_def
      old_WithAttrs_def)

text \<open>
  C9. \<^verbatim>\<open>appendValue\<close> panics exactly on the values whose kind is none of String, Int64,
  Uint64, Float64, Bool, Duration, Time, Group, Any, LogValuer; a panic carries no slice
  and no store, so nothing is appended; on every declared kind it returns a slice. Both
  drafts.
\<close>

theorem appendValue_panics_iff_unknown_kind:
  "((\<exists>e. appendValue lib v dst st = Inl e) = (Kind_of v \<notin> recognized_kinds)) \<and>
   ((\<exists>sl st'. appendValue lib v dst st = Inr (sl, st')) = (Kind_of v \<in> recognized_kinds)) \<and>
   ((\<exists>e. old_appendValue lib v dst st = Inl e) = (Kind_of v \<notin> recognized_kinds)) \<and>
   ((\<exists>sl st'. old_appendValue lib v dst st = Inr (sl, st')) = (Kind_of v \<in> recognized_kinds))"
  by (cases v) (auto simp: recognized_kinds_def intro: prod.exhaust)

theorem appendValue_panics_iff_unknown_kind_witness:
  "(\<exists>e. appendValue lib0 (UnknownValue 42) nil_slice heap0 = Inl e) \<and>
   Kind_of (UnknownValue 42) \<notin> recognized_kinds \<and>
   (\<exists>sl st'. appendValue lib0 (Int64Value 7) nil_slice heap0 = Inr (sl, st')) \<and>
   Kind_of (Int64Value 7) \<in> recognized_kinds"
  using appendValue_panics_iff_unknown_kind [of lib0 "UnknownValue 42" nil_slice heap0]
        appendValue_panics_iff_unknown_kind [of lib0 "Int64Value 7" nil_slice heap0]
  by (simp add: recognized_kinds_def)

text \<open>
  C2. An attribute whose value (after the rewrite function, if one is set, and after
  resolution) is a group with no members makes \<^verbatim>\<open>appendAttr\<close> return with the store as
  it was: no key, no \<open>=\<close>, no space, whatever the attribute's key, the key prefix and
  the buffer hold. Any fuel above zero suffices. Both drafts.
\<close>

theorem empty_group_emits_nothing:
  "(Resolve lib (Val (optionalReplaceAttr c (groups (c_h c)) a)) = GroupValue [] \<longrightarrow>
      appendAttr (Suc n) lib c a keyPref st = Some (Inr st)) \<and>
   (Resolve lib (Val (case ReplaceAttr (old_opts h) of None \<Rightarrow> a | Some f \<Rightarrow> f [] a))
        = GroupValue [] \<longrightarrow>
      old_appendAttr (Suc n) lib h buf a keyPref st = Some (Inr st))"
  by (simp add: Let_def Attr_Equal_zero_def zero_Attr_def appendAttr.simps old_appendAttr.simps)

theorem empty_group_emits_nothing_witness:
  "Resolve lib0 (Val (optionalReplaceAttr c1 (groups (c_h c1)) (Attr ''grp'' (GroupValue []))))
      = GroupValue [] \<and>
   appendAttr (Suc 0) lib0 c1 (Attr ''grp'' (GroupValue [])) ''pfx'' heap1 = Some (Inr heap1) \<and>
   Resolve lib0 (Val (case ReplaceAttr (old_opts oh0) of
                   None \<Rightarrow> Attr ''grp'' (GroupValue [])
                 | Some f \<Rightarrow> f [] (Attr ''grp'' (GroupValue [])))) = GroupValue [] \<and>
   old_appendAttr (Suc 0) lib0 oh0 2 (Attr ''grp'' (GroupValue [])) ''pfx'' heap1
      = Some (Inr heap1)"
  using empty_group_emits_nothing [where c = c1 and a = "Attr ''grp'' (GroupValue [])"
          and n = 0 and lib = lib0 and keyPref = "''pfx''" and st = heap1 and h = oh0
          and buf = 2]
  by (simp add: optionalReplaceAttr_def c1_def h1_def h0_def opts0_def zero_Options_def
        oh0_def Resolve_id)


text \<open>
  C6. An attribute with the empty key and a resolved leaf value of a declared kind (the
  zero attribute apart, which the guard before drops) makes the newer draft's
  \<^verbatim>\<open>appendAttr\<close> append a space (when the buffer is not empty), the current prefix,
  \<open>=\<close> and the value's text, as the claim has it; the current prefix is \<open>keyPref\<close> or,
  when that is empty, the handler's own prefix. The older draft's \<^verbatim>\<open>mergePrefWithKey\<close>
  returns the key when the key is empty, so its \<^verbatim>\<open>appendAttr\<close> appends \<open>=\<close> and the
  value's text without the prefix, whatever the prefix is.
\<close>

theorem empty_key_prefix_by_draft:
  "(valid_slice st (bufs st (c_buf c)) \<and>
    Key (optionalReplaceAttr c (groups (c_h c)) a) = [] \<and>
    Resolve lib (Val (optionalReplaceAttr c (groups (c_h c)) a)) = w \<and>
    Kind_of w \<in> recognized_kinds \<and> Kind_of w \<noteq> KindGroup \<and> w \<noteq> AnyValue AnyNil \<longrightarrow>
      (\<exists>st'. appendAttr (Suc n) lib c a keyPref st = Some (Inr st') \<and>
         contents st' (c_buf c) =
           contents st (c_buf c) @ (if contents st (c_buf c) = [] then [] else '' '')
             @ (if keyPref = [] then prefix (c_h c) else keyPref) @ ''=''
             @ value_text lib w)) \<and>
   (valid_slice st (bufs st buf) \<and>
    Key (case ReplaceAttr (old_opts h) of None \<Rightarrow> a | Some f \<Rightarrow> f [] a) = [] \<and>
    Resolve lib (Val (case ReplaceAttr (old_opts h) of None \<Rightarrow> a | Some f \<Rightarrow> f [] a)) = v \<and>
    Kind_of v \<in> recognized_kinds \<and> Kind_of v \<noteq> KindGroup \<and> v \<noteq> AnyValue AnyNil \<longrightarrow>
      (\<exists>st'. old_appendAttr (Suc n) lib h buf a keyPref st = Some (Inr st') \<and>
         contents st' buf =
           contents st buf @ (if contents st buf = [] then [] else '' '') @ ''=''
             @ old_value_text lib v))"
proof -
  have new: "\<exists>st'. appendAttr (Suc n) lib c a keyPref st = Some (Inr st') \<and>
         contents st' (c_buf c) =
           contents st (c_buf c) @ (if contents st (c_buf c) = [] then [] else '' '')
             @ (if keyPref = [] then prefix (c_h c) else keyPref) @ ''=''
             @ value_text lib w"
    if vs: "valid_slice st (bufs st (c_buf c))"
      and ke: "Key (optionalReplaceAttr c (groups (c_h c)) a) = []"
      and re: "Resolve lib (Val (optionalReplaceAttr c (groups (c_h c)) a)) = w"
      and k: "Kind_of w \<in> recognized_kinds" "Kind_of w \<noteq> KindGroup"
      and nn: "w \<noteq> AnyValue AnyNil"
  proof -
    have nz: "\<not> Attr_Equal_zero (Attr (Key (optionalReplaceAttr c (groups (c_h c)) a)) w)"
      using nn by (simp add: Attr_Equal_zero_def zero_Attr_def)
    obtain st' where r: "appendAttr (Suc n) lib c a keyPref st = Some (Inr st')"
      and b: "appended (c_buf c)
               ((if contents st (c_buf c) = [] then [] else '' '')
                  @ mergePrefWithKey (if keyPref = [] then prefix (c_h c) else keyPref)
                      (Key (optionalReplaceAttr c (groups (c_h c)) a))
                  @ ''='' @ value_text lib w) st st'"
      using appendAttr_leaf [OF vs refl re nz k] by blast
    have "mergePrefWithKey (if keyPref = [] then prefix (c_h c) else keyPref)
            (Key (optionalReplaceAttr c (groups (c_h c)) a))
          = (if keyPref = [] then prefix (c_h c) else keyPref)"
      by (simp add: ke mergePrefWithKey_def)
    then show ?thesis
      using r appended_contents [OF b] by simp
  qed
  have old: "\<exists>st'. old_appendAttr (Suc n) lib h buf a keyPref st = Some (Inr st') \<and>
         contents st' buf =
           contents st buf @ (if contents st buf = [] then [] else '' '') @ ''=''
             @ old_value_text lib v"
    if vs: "valid_slice st (bufs st buf)"
      and ke: "Key (case ReplaceAttr (old_opts h) of None \<Rightarrow> a | Some f \<Rightarrow> f [] a) = []"
      and re: "Resolve lib (Val (case ReplaceAttr (old_opts h) of None \<Rightarrow> a
                                  | Some f \<Rightarrow> f [] a)) = v"
      and k: "Kind_of v \<in> recognized_kinds" "Kind_of v \<noteq> KindGroup"
      and nn: "v \<noteq> AnyValue AnyNil"
  proof -
    have nz: "\<not> Attr_Equal_zero
                 (Attr (Key (case ReplaceAttr (old_opts h) of None \<Rightarrow> a | Some f \<Rightarrow> f [] a)) v)"
      using nn by (simp add: Attr_Equal_zero_def zero_Attr_def)
    obtain st' where r: "old_appendAttr (Suc n) lib h buf a keyPref st = Some (Inr st')"
      and b: "appended buf
               ((if contents st buf = [] then [] else '' '')
                  @ old_mergePrefWithKey keyPref
                      (Key (case ReplaceAttr (old_opts h) of None \<Rightarrow> a | Some f \<Rightarrow> f [] a))
                  @ ''='' @ old_value_text lib v) st st'"
      using old_appendAttr_leaf [OF vs refl re nz k] by blast
    have "old_mergePrefWithKey keyPref
            (Key (case ReplaceAttr (old_opts h) of None \<Rightarrow> a | Some f \<Rightarrow> f [] a)) = []"
      by (simp add: ke old_mergePrefWithKey_def)
    then show ?thesis
      using r appended_contents [OF b] by simp
  qed
  show ?thesis
    using new old by blast
qed

theorem empty_key_prefix_by_draft_witness:
  "valid_slice heap1 (bufs heap1 (c_buf c1)) \<and>
   Key (optionalReplaceAttr c1 (groups (c_h c1)) (Attr [] (Int64Value 7))) = [] \<and>
   Resolve lib0 (Val (optionalReplaceAttr c1 (groups (c_h c1)) (Attr [] (Int64Value 7))))
      = Int64Value 7 \<and>
   Kind_of (Int64Value 7) \<in> recognized_kinds \<and> Kind_of (Int64Value 7) \<noteq> KindGroup \<and>
   Int64Value 7 \<noteq> AnyValue AnyNil \<and>
   (\<exists>st'. appendAttr (Suc 0) lib0 c1 (Attr [] (Int64Value 7)) ''grp'' heap1 = Some (Inr st') \<and>
          contents st' (c_buf c1) = ''grp=7'') \<and>
   valid_slice heap1 (bufs heap1 2) \<and>
   Key (case ReplaceAttr (old_opts oh0) of None \<Rightarrow> Attr [] (Int64Value 7)
        | Some f \<Rightarrow> f [] (Attr [] (Int64Value 7))) = [] \<and>
   Resolve lib0 (Val (case ReplaceAttr (old_opts oh0) of None \<Rightarrow> Attr [] (Int64Value 7)
        | Some f \<Rightarrow> f [] (Attr [] (Int64Value 7)))) = Int64Value 7 \<and>
   (\<exists>st'. old_appendAttr (Suc 0) lib0 oh0 2 (Attr [] (Int64Value 7)) ''grp'' heap1
             = Some (Inr st') \<and>
          contents st' 2 = ''=7'')"
proof -
  have k: "optionalReplaceAttr c1 (groups (c_h c1)) (Attr [] (Int64Value 7))
             = Attr [] (Int64Value 7)"
    by (simp add: optionalReplaceAttr_def c1_def h1_def h0_def opts0_def zero_Options_def)
  have ko: "(case ReplaceAttr (old_opts oh0) of None \<Rightarrow> Attr [] (Int64Value 7)
        | Some f \<Rightarrow> f [] (Attr [] (Int64Value 7))) = Attr [] (Int64Value 7)"
    by (simp add: oh0_def opts0_def zero_Options_def)
  have cb: "c_buf c1 = 2" by (simp add: c1_def)
  have p1: "valid_slice heap1 (bufs heap1 (c_buf c1))"
    by (simp add: cb heap1_valid)
  have p2: "Key (optionalReplaceAttr c1 (groups (c_h c1)) (Attr [] (Int64Value 7))) = []"
    by (simp add: k)
  have p3: "Resolve lib0 (Val (optionalReplaceAttr c1 (groups (c_h c1)) (Attr [] (Int64Value 7))))
              = Int64Value 7"
    by (simp add: k Resolve_id)
  have p4: "Kind_of (Int64Value 7) \<in> recognized_kinds"
    by (simp add: recognized_kinds_def)
  have p5: "Kind_of (Int64Value 7) \<noteq> KindGroup"
    by simp
  have p6: "Int64Value 7 \<noteq> AnyValue AnyNil"
    by simp
  have q1: "valid_slice heap1 (bufs heap1 2)"
    by (rule heap1_valid)
  have q2: "Key (case ReplaceAttr (old_opts oh0) of None \<Rightarrow> Attr [] (Int64Value 7)
        | Some f \<Rightarrow> f [] (Attr [] (Int64Value 7))) = []"
    by (simp add: ko)
  have q3: "Resolve lib0 (Val (case ReplaceAttr (old_opts oh0) of None \<Rightarrow> Attr [] (Int64Value 7)
        | Some f \<Rightarrow> f [] (Attr [] (Int64Value 7)))) = Int64Value 7"
    by (simp add: ko Resolve_id)
  have t: "Itoa 7 = ''7''"
    by (simp add: Itoa_def dec_nat.simps digit_def)
  have ot: "old_value_text lib0 (Int64Value 7) = ''7''"
    by (simp add: old_value_text_def t)
  have pc: "contents heap1 (c_buf c1) = []" "contents heap1 2 = []"
    by (simp_all add: cb heap1_contents)
  note inst = empty_key_prefix_by_draft [where st = heap1 and c = c1 and a = "Attr [] (Int64Value 7)"
      and lib = lib0 and w = "Int64Value 7" and v = "Int64Value 7" and n = 0
      and keyPref = "''grp''" and buf = 2 and h = oh0]
  have n1: "\<exists>st'. appendAttr (Suc 0) lib0 c1 (Attr [] (Int64Value 7)) ''grp'' heap1
                = Some (Inr st') \<and> contents st' (c_buf c1) = ''grp=7''"
    using inst [THEN conjunct1] p1 p2 p3 p4 p5 p6 by (simp add: t pc)
  have o1: "\<exists>st'. old_appendAttr (Suc 0) lib0 oh0 2 (Attr [] (Int64Value 7)) ''grp'' heap1
             = Some (Inr st') \<and> contents st' 2 = ''=7''"
    using inst [THEN conjunct2] q1 q2 q3 p4 p5 p6 by (simp add: ot pc)
  show ?thesis
    using p1 p2 p3 p4 p5 p6 q1 q2 q3 n1 o1 by blast
qed


text \<open>
  C1, as stated, fails on the string that holds the one byte 0x7F (DEL): the rune is not
  printable, so the claim has it quoted, and \<^verbatim>\<open>safeSet\<close> holds true for it, so the
  code appends it as it is.
\<close>

theorem needsQuoting_DEL_counterexample:
  "\<not> needsQuoting lib0 [CHR 0x7F] \<and> \<not> unicode_IsPrint lib0 0x7F \<and>
   claim_needsQuoting lib0 [CHR 0x7F]"
  by (simp add: needsQuoting_def byte_of_def RuneSelf_def safeSet_def bslash_def
        unicode_IsPrint_def claim_needsQuoting_def DecodeRuneInString.simps)


text \<open>
  C1, amended. \<^verbatim>\<open>appendString\<close> appends \<^verbatim>\<open>strconv.Quote(s)\<close>, that is \<open>s\<close> between
  double quotes with Go's escapes, if and only if \<open>s\<close> is empty or one of its runes,
  decoded from left to right, is an ASCII byte from 0x00 to 0x20, \<open>=\<close> or the double
  quote, or is beyond ASCII and is the replacement rune U+FFFD (which every invalid
  encoding decodes to), white space or not printable. The backslash and DEL do not
  trigger quoting. Otherwise the bytes of \<open>s\<close> are appended as they are.
\<close>

theorem appendString_quotes_iff:
  "needsQuoting lib s = (s = [] \<or> (\<exists>(r, w) \<in> set (runes_of s). quote_rune lib r)) \<and>
   appendString lib dst s st = go_append dst (if needsQuoting lib s then Quote lib s else s) st \<and>
   Quote lib s = [dquote] @ quote_from lib s @ [dquote] \<and>
   (valid_slice st dst \<longrightarrow>
      slice_bytes (snd (appendString lib dst s st)) (fst (appendString lib dst s st))
        = slice_bytes st dst
            @ (if needsQuoting lib s then [dquote] @ quote_from lib s @ [dquote] else s)) \<and>
   \<not> quote_rune lib (byte_of bslash) \<and> \<not> quote_rune lib 0x7F"
proof -
  have a: "appendString lib dst s st
             = go_append dst (if needsQuoting lib s then Quote lib s else s) st"
    by (simp add: appendString_def)
  have b: "slice_bytes (snd (appendString lib dst s st)) (fst (appendString lib dst s st))
        = slice_bytes st dst
            @ (if needsQuoting lib s then [dquote] @ quote_from lib s @ [dquote] else s)"
    if "valid_slice st dst"
    using go_append_bytes [OF that, of "if needsQuoting lib s then Quote lib s else s"
            "fst (appendString lib dst s st)" "snd (appendString lib dst s st)"] a
    by (simp add: Quote_def)
  show ?thesis
    using a b needsQuoting_iff [of lib s]
    by (simp add: Quote_def quote_rune_def byte_of_def bslash_def)
qed

theorem appendString_quotes_iff_witness:
  "valid_slice heap1 (bufs heap1 2) \<and>
   needsQuoting lib0 ''quote me'' \<and>
   slice_bytes (snd (appendString lib0 (bufs heap1 2) ''quote me'' heap1))
               (fst (appendString lib0 (bufs heap1 2) ''quote me'' heap1))
     = [dquote] @ ''quote me'' @ [dquote] \<and>
   \<not> needsQuoting lib0 [CHR ''a'', bslash, CHR ''b''] \<and>
   slice_bytes (snd (appendString lib0 (bufs heap1 2) [CHR ''a'', bslash, CHR ''b''] heap1))
               (fst (appendString lib0 (bufs heap1 2) [CHR ''a'', bslash, CHR ''b''] heap1))
     = [CHR ''a'', bslash, CHR ''b'']"
proof -
  have n1: "needsQuoting lib0 ''quote me''"
    by (simp add: needsQuoting_def byte_of_def RuneSelf_def safeSet_def bslash_def)
  have n2: "\<not> needsQuoting lib0 [CHR ''a'', bslash, CHR ''b'']"
    by (simp add: needsQuoting_def byte_of_def RuneSelf_def safeSet_def bslash_def)
  have q: "quote_from lib0 ''quote me'' = ''quote me''"
    by (simp add: quote_from_plain byte_of_def dquote_def bslash_def del: quote_from.simps(2))
  have e: "slice_bytes heap1 (bufs heap1 2) = []"
    using heap1_contents by (simp add: contents_def)
  have t1: "slice_bytes (snd (appendString lib0 (bufs heap1 2) ''quote me'' heap1))
               (fst (appendString lib0 (bufs heap1 2) ''quote me'' heap1))
            = slice_bytes heap1 (bufs heap1 2)
                @ (if needsQuoting lib0 ''quote me''
                   then [dquote] @ quote_from lib0 ''quote me'' @ [dquote] else ''quote me'')"
    using appendString_quotes_iff [of lib0 "''quote me''" "bufs heap1 2" heap1] heap1_valid
    by blast
  have t2: "slice_bytes
              (snd (appendString lib0 (bufs heap1 2) [CHR ''a'', bslash, CHR ''b''] heap1))
              (fst (appendString lib0 (bufs heap1 2) [CHR ''a'', bslash, CHR ''b''] heap1))
            = slice_bytes heap1 (bufs heap1 2)
                @ (if needsQuoting lib0 [CHR ''a'', bslash, CHR ''b'']
                   then [dquote] @ quote_from lib0 [CHR ''a'', bslash, CHR ''b''] @ [dquote]
                   else [CHR ''a'', bslash, CHR ''b''])"
    using appendString_quotes_iff [of lib0 "[CHR ''a'', bslash, CHR ''b'']" "bufs heap1 2" heap1]
          heap1_valid
    by blast
  show ?thesis
    using heap1_valid n1 n2 by (simp only: t1 t2 e q if_True if_False append_Nil) simp
qed

text \<open>
  C10. A buffer made by the pool's \<^verbatim>\<open>New\<close> has length zero. \<^verbatim>\<open>free\<close> sets the
  length of a buffer within the size cap to zero and puts it into the pool; a buffer
  over the cap is dropped, the store staying as it was. So a pool in order (every pooled
  buffer valid and of length zero) stays in order over \<^verbatim>\<open>allocBuf\<close> and \<^verbatim>\<open>free\<close>, and
  whatever item the pool hands out, the buffer \<^verbatim>\<open>allocBuf\<close> returns is empty: what is
  written to it first is all that it holds, whatever bytes its backing array held before.
\<close>

theorem scratch_buffers_start_empty:
  "(case bufPool_New st of (b, st0) \<Rightarrow> slen (bufs st0 b) = 0 \<and> contents st0 b = []) \<and>
   (scap (bufs st b) \<le> maxBufferSize \<longrightarrow>
      bufPool (free b st) = bufPool st @ [b] \<and> slen (bufs (free b st) b) = 0 \<and>
      contents (free b st) b = []) \<and>
   (maxBufferSize < scap (bufs st b) \<longrightarrow> free b st = st) \<and>
   (pool_ok st \<longrightarrow>
      (case allocBuf pick st of (b, st0) \<Rightarrow>
         slen (bufs st0 b) = 0 \<and> contents st0 b = [] \<and> valid_slice st0 (bufs st0 b) \<and>
         b \<notin> set (bufPool st0) \<and> pool_ok st0 \<and>
         contents (writeString b s st0) b = s)) \<and>
   (pool_ok st \<and> b \<notin> set (bufPool st) \<and> valid_slice st (bufs st b) \<and> b < nxt st \<longrightarrow>
      pool_ok (free b st))"
proof -
  have a: "case bufPool_New st of (b, st0) \<Rightarrow> slen (bufs st0 b) = 0 \<and> contents st0 b = []"
    by (simp add: bufPool_New_def make_bytes_def contents_def slice_bytes_def)
  have b: "bufPool (free b st) = bufPool st @ [b] \<and> slen (bufs (free b st) b) = 0 \<and>
           contents (free b st) b = []"
    if "scap (bufs st b) \<le> maxBufferSize"
    using that by (simp add: free_def Pool_Put_def contents_def slice_bytes_def)
  have c: "free b st = st" if "maxBufferSize < scap (bufs st b)"
    using that by (simp add: free_def)
  have d: "case allocBuf pick st of (b, st0) \<Rightarrow>
         slen (bufs st0 b) = 0 \<and> contents st0 b = [] \<and> valid_slice st0 (bufs st0 b) \<and>
         b \<notin> set (bufPool st0) \<and> pool_ok st0 \<and>
         contents (writeString b s st0) b = s" if p: "pool_ok st"
  proof -
    obtain b st0 where al: "allocBuf pick st = (b, st0)"
      by (cases "allocBuf pick st") auto
    note sp = allocBuf_spec [OF p al]
    have c0: "contents st0 b = []"
      using sp by (simp add: contents_def slice_bytes_def)
    have "appended b s st0 (writeString b s st0)"
      using sp by (intro writeString_appended) simp
    then have "contents (writeString b s st0) b = s"
      using c0 by (simp add: appended_def)
    then show ?thesis
      using sp c0 by (simp add: al)
  qed
  have e: "pool_ok (free b st)"
    if "pool_ok st \<and> b \<notin> set (bufPool st) \<and> valid_slice st (bufs st b) \<and> b < nxt st"
    using that free_pool_ok by blast
  show ?thesis
    using a b c d e by blast
qed

theorem scratch_buffers_start_empty_witness:
  "scap (bufs heap1 2) \<le> maxBufferSize \<and>
   bufPool (free 2 heap1) = bufPool heap1 @ [2] \<and> slen (bufs (free 2 heap1) 2) = 0 \<and>
   pool_ok heap1 \<and> 2 \<notin> set (bufPool heap1) \<and> valid_slice heap1 (bufs heap1 2) \<and>
   2 < nxt heap1 \<and> pool_ok (free 2 heap1) \<and>
   (case allocBuf (Some 0) (free 2 heap1) of (b, st0) \<Rightarrow>
      slen (bufs st0 b) = 0 \<and> contents st0 b = [] \<and>
      contents (writeString b ''INFO'' st0) b = ''INFO'')"
proof -
  have c: "scap (bufs heap1 2) \<le> maxBufferSize"
    by (simp add: heap1_eq maxBufferSize_def)
  have n: "2 \<notin> set (bufPool heap1)" "2 < nxt heap1"
    by (simp_all add: heap1_eq)
  note t1 = scratch_buffers_start_empty [where st = heap1 and b = 2 and pick = None and s = "[]"]
  have pf: "pool_ok (free 2 heap1)"
    using t1 heap1_pool_ok n heap1_valid by blast
  note t2 = scratch_buffers_start_empty [where st = "free 2 heap1" and b = 2 and pick = "Some 0"
                and s = "''INFO''"]
  have "case allocBuf (Some 0) (free 2 heap1) of (b, st0) \<Rightarrow>
      slen (bufs st0 b) = 0 \<and> contents st0 b = [] \<and>
      contents (writeString b ''INFO'' st0) b = ''INFO''"
    using t2 pf by (auto split: prod.splits)
  then show ?thesis
    using t1 c n pf heap1_pool_ok heap1_valid by blast
qed

text \<open>
  C5. In a store in order, opening groups one after the other on a handler \<open>h\<close> gives a
  handler whose prefix is the names opened, the empty ones left out, joined by dots in
  the order opened behind the prefix of \<open>h\<close>, and whose group list is that of \<open>h\<close>
  followed by these names. So \<^verbatim>\<open>WithGroup(a).WithGroup(b)\<close> and \<^verbatim>\<open>WithGroup("a.b")\<close>
  give the same prefix for non-empty \<open>a\<close> and \<open>b\<close>, and a handler that \<^verbatim>\<open>New\<close> made
  has the empty prefix and no groups.
\<close>

theorem withGroup_prefix_is_dot_join:
  assumes "pool_ok st" and "handler_ok st hp h"
  shows "(\<exists>hp' st' h'. withGroups hp pns st = Inr (hp', st') \<and> handlers st' hp' = Some h' \<and>
            prefix h' = dot_join (filter (\<lambda>s. s \<noteq> []) (prefix h # map snd pns)) \<and>
            groups h' = groups h @ filter (\<lambda>s. s \<noteq> []) (map snd pns)) \<and>
         (a \<noteq> [] \<and> b \<noteq> [] \<longrightarrow>
            (\<exists>hp2 st2 h2 hp3 st3 h3.
               withGroups hp [(p1, a), (p2, b)] st = Inr (hp2, st2) \<and>
               handlers st2 hp2 = Some h2 \<and>
               withGroup p3 hp (a @ ''.'' @ b) st = Inr (hp3, st3) \<and>
               handlers st3 hp3 = Some h3 \<and>
               prefix h2 = prefix h3 \<and>
               prefix h2 = (if prefix h = [] then a @ ''.'' @ b
                            else prefix h @ ''.'' @ a @ ''.'' @ b))) \<and>
         (case New w ops st of (hp0, st0) \<Rightarrow>
            \<exists>hn. handlers st0 hp0 = Some hn \<and> prefix hn = [] \<and> groups hn = [])"
proof -
  have g: "\<exists>hp' st' h'. withGroups hp pns st = Inr (hp', st') \<and> handlers st' hp' = Some h' \<and>
            prefix h' = dot_join (filter (\<lambda>s. s \<noteq> []) (prefix h # map snd pns)) \<and>
            groups h' = groups h @ filter (\<lambda>s. s \<noteq> []) (map snd pns)" for pns
    using withGroups_spec [OF assms, of pns] by (auto simp: handler_ok_def)
  have ab: "\<exists>hp2 st2 h2 hp3 st3 h3.
               withGroups hp [(p1, a), (p2, b)] st = Inr (hp2, st2) \<and>
               handlers st2 hp2 = Some h2 \<and>
               withGroup p3 hp (a @ ''.'' @ b) st = Inr (hp3, st3) \<and>
               handlers st3 hp3 = Some h3 \<and>
               prefix h2 = prefix h3 \<and>
               prefix h2 = (if prefix h = [] then a @ ''.'' @ b
                            else prefix h @ ''.'' @ a @ ''.'' @ b)"
    if ne: "a \<noteq> []" "b \<noteq> []"
  proof -
    obtain hp2 st2 h2 where r2: "withGroups hp [(p1, a), (p2, b)] st = Inr (hp2, st2)"
      "handlers st2 hp2 = Some h2"
      "prefix h2 = dot_join (filter (\<lambda>s. s \<noteq> []) (prefix h # map snd [(p1, a), (p2, b)]))"
      using g [of "[(p1, a), (p2, b)]"] by blast
    have ne3: "a @ ''.'' @ b \<noteq> []" by simp
    obtain hp3 st3 h3 where r3: "withGroup p3 hp (a @ ''.'' @ b) st = Inr (hp3, st3)"
      "h3 = h\<lparr>prefix := (if prefix h = [] then a @ ''.'' @ b
                           else prefix h @ ''.'' @ a @ ''.'' @ b),
              groups := groups h @ [a @ ''.'' @ b]\<rparr>"
      "handlers st3 = (handlers st)(hp3 \<mapsto> h3)"
      using withGroup_spec [OF assms ne3, of p3] by auto
    have p2: "prefix h2 = (if prefix h = [] then a @ ''.'' @ b
                            else prefix h @ ''.'' @ a @ ''.'' @ b)"
      using r2(3) ne by simp
    have "handlers st3 hp3 = Some h3" "prefix h3 = prefix h2"
      using r3 p2 by simp_all
    then show ?thesis
      using r2 r3(1) p2 by auto
  qed
  show ?thesis
    using g [of pns] ab New_spec [of w ops st] by (auto split: prod.splits)
qed

theorem withGroup_prefix_is_dot_join_witness:
  "pool_ok heapH \<and> handler_ok heapH 2 hP \<and> ''grp1'' \<noteq> [] \<and> ''grp2'' \<noteq> [] \<and>
   (\<exists>hp2 st2 h2 hp3 st3 h3.
       withGroups 2 [(None, ''grp1''), (None, ''grp2'')] heapH = Inr (hp2, st2) \<and>
       handlers st2 hp2 = Some h2 \<and>
       withGroup None 2 ''grp1.grp2'' heapH = Inr (hp3, st3) \<and>
       handlers st3 hp3 = Some h3 \<and>
       prefix h2 = prefix h3 \<and> prefix h2 = ''grp1.grp2'')"
proof -
  have p: "prefix hP = []"
    by (simp add: hP_def h0_def)
  have "\<exists>hp2 st2 h2 hp3 st3 h3.
       withGroups 2 [(None, ''grp1''), (None, ''grp2'')] heapH = Inr (hp2, st2) \<and>
       handlers st2 hp2 = Some h2 \<and>
       withGroup None 2 (''grp1'' @ ''.'' @ ''grp2'') heapH = Inr (hp3, st3) \<and>
       handlers st3 hp3 = Some h3 \<and>
       prefix h2 = prefix h3 \<and>
       prefix h2 = (if prefix hP = [] then ''grp1'' @ ''.'' @ ''grp2''
                    else prefix hP @ ''.'' @ ''grp1'' @ ''.'' @ ''grp2'')"
    using withGroup_prefix_is_dot_join [OF heapH_ok, where a = "''grp1''" and b = "''grp2''"
            and ?p1.0 = None and ?p2.0 = None and ?p3.0 = None]
    by blast
  then show ?thesis
    using heapH_ok by (simp add: p)
qed





text \<open>
  C3. With \<^verbatim>\<open>DropTime\<close> set, the claim has every line start with the level token. The
  newer draft's \<^verbatim>\<open>appendTime\<close> returns early only when the time is zero \<^emph>\<open>and\<close>
  \<^verbatim>\<open>DropTime\<close> is set, so whenever its \<^verbatim>\<open>Handle\<close> returns for a record with a time,
  the line starts with the formatted time, a space when that text is not empty, and the
  level token; only a record with the zero time gets the line the claim describes. The
  older draft's \<^verbatim>\<open>Handle\<close> tests \<^verbatim>\<open>!r.Time.IsZero() && !h.opts.DropTime\<close> and, shown
  here for records without attributes and no rewrite function, returns a line that
  starts with the level token.
\<close>

theorem DropTime_by_draft:
  assumes "pool_ok st"
  shows "(handler_ok st hp h \<and> DropTime (opts h) \<and>
          Handle fuel lib pick hp r st = Some (Inr (e, st')) \<longrightarrow>
            (\<exists>rest. written st' = written st @ [(out h,
                join_token
                  (if IsZero (rTime r) then []
                   else Time_Format lib (rTime r) (TimeFormat (opts h)))
                  (level_text lib (opts h) (rLevel r)) @ rest)])) \<and>
         (old_handler_ok st hq g \<and> DropTime (old_opts g) \<and> Colorize (old_opts g) = Some cz \<and>
          ReplaceAttr (old_opts g) = None \<and> rAttrs r = [] \<longrightarrow>
            (\<exists>st2 line rest. old_Handle (Suc n) lib pick hq r st
                 = Some (Inr (Write_error lib (old_out g) line, st2)) \<and>
               written st2 = written st @ [(old_out g, line)] \<and>
               line = level_text lib (old_opts g) (rLevel r) @ rest))"
proof -
  have new: "\<exists>rest. written st' = written st @ [(out h,
                join_token
                  (if IsZero (rTime r) then []
                   else Time_Format lib (rTime r) (TimeFormat (opts h)))
                  (level_text lib (opts h) (rLevel r)) @ rest)]"
    if h: "handler_ok st hp h" and d: "DropTime (opts h)"
      and r: "Handle fuel lib pick hp r st = Some (Inr (e, st'))"
  proof -
    have hh: "handlers st hp = Some h"
      using h by (simp add: handler_ok_def)
    obtain b st0 st8 rest where a: "allocBuf pick st = (b, st0)"
      and w: "appended b
             (join_token
                (if IsZero (rTime r) \<and> DropTime (opts h) then []
                 else Time_Format lib (rTime r) (TimeFormat (opts h)))
                (level_text lib (opts h) (rLevel r)) @ rest) st0 st8"
      and c: "contents st8 b =
             join_token
                (if IsZero (rTime r) \<and> DropTime (opts h) then []
                 else Time_Format lib (rTime r) (TimeFormat (opts h)))
                (level_text lib (opts h) (rLevel r)) @ rest"
      and s': "st' = free b (st8\<lparr>written := written st8 @ [(out h, contents st8 b)]\<rparr>)"
      using Handle_composes [OF assms hh r] by blast
    have "written st8 = written st"
      using w allocBuf_spec [OF assms a] by (simp add: appended_def)
    then have "written st' = written st @ [(out h, contents st8 b)]"
      by (simp add: s' free_def Pool_Put_def)
    then show ?thesis
      using d unfolding c by auto
  qed
  have old: "\<exists>st2 line rest. old_Handle (Suc n) lib pick hq r st
                 = Some (Inr (Write_error lib (old_out g) line, st2)) \<and>
               written st2 = written st @ [(old_out g, line)] \<and>
               line = level_text lib (old_opts g) (rLevel r) @ rest"
    if g: "old_handler_ok st hq g" and d: "DropTime (old_opts g)"
      and cz: "Colorize (old_opts g) = Some cz" and ra: "ReplaceAttr (old_opts g) = None"
      and na: "rAttrs r = []"
  proof -
    let ?L = "line_text []
                    (level_text lib (old_opts g) (rLevel r))
                    (rMessage r)
                    (if AddSource (old_opts g) \<and> rPC r \<noteq> 0 then
                       Some (SourceKey @ ''=''
                               @ old_value_text lib (StringValue (source_text lib (rPC r))))
                     else None)
                    (slice_bytes st (old_preformatted g))"
    obtain st2 where run: "old_Handle (Suc n) lib pick hq r st
             = Some (Inr (Write_error lib (old_out g) ?L, st2))"
      and w: "written st2 = written st @ [(old_out g, ?L)]"
      using old_Handle_line [OF assms g cz ra na, of n lib pick] d by auto
    have "\<exists>rest. ?L = join_token [] (level_text lib (old_opts g) (rLevel r)) @ rest"
      by (rule line_text_head)
    then obtain rest where "?L = level_text lib (old_opts g) (rLevel r) @ rest"
      unfolding join_token_Nil by blast
    then show ?thesis
      using run w by blast
  qed
  show ?thesis
    using new old by blast
qed

theorem DropTime_by_draft_witness:
  "pool_ok heapR \<and> handler_ok heapR 1 hT \<and> DropTime (opts hT) \<and> \<not> IsZero (rTime rec0) \<and>
   (\<exists>st'. Handle (Suc 0) lib0 None 1 rec0 heapR = Some (Inr (None, st')) \<and>
          written st' = [(1, ''2023-09-10 20:00:00.000 ERROR msg'' @ [CHR 0x0A])]) \<and>
   old_handler_ok heapR 3 ohT \<and> DropTime (old_opts ohT) \<and>
   Colorize (old_opts ohT) = Some False \<and> ReplaceAttr (old_opts ohT) = None \<and>
   rAttrs rec0 = [] \<and>
   (\<exists>st2. old_Handle (Suc 0) lib0 None 3 rec0 heapR = Some (Inr (None, st2)) \<and>
          written st2 = [(1, ''ERROR msg'' @ [CHR 0x0A])])"
proof -
  have f: "DropTime (opts hT)" "Colorize (opts hT) = Some False" "ReplaceAttr (opts hT) = None"
    "out hT = 1" "prefix hT = []" "preformatted hT = nil_slice" "AddSource (opts hT) = False"
    "StringLevel (opts hT) = None" "TimeFormat (opts hT) = defaultTimeFormat"
    by (simp_all add: hT_def h0_def opts0_def zero_Options_def)
  have g: "DropTime (old_opts ohT)" "Colorize (old_opts ohT) = Some False"
    "ReplaceAttr (old_opts ohT) = None" "old_out ohT = 1"
    "old_preformatted ohT = nil_slice" "AddSource (old_opts ohT) = False"
    "StringLevel (old_opts ohT) = None"
    by (simp_all add: ohT_def oh0_def opts0_def zero_Options_def)
  have rc: "\<not> IsZero (rTime rec0)" "rAttrs rec0 = []" "rMessage rec0 = ''msg''"
    "rLevel rec0 = LevelError"
    by (simp_all add: rec0_def IsZero_def)
  have lv: "Level_String LevelError = ''ERROR''"
    by (simp add: Level_String_def Level_str_def LevelError_def LevelWarn_def LevelInfo_def)
  have w0: "written heapR = []" "slice_bytes heapR nil_slice = []"
    by (simp_all add: heapR_def heap0_def slice_bytes_def nil_slice_def)
  have tf: "Time_Format lib0 t l = ''2023-09-10 20:00:00.000''" "Write_error lib0 x y = None"
    for t l x y
    by (simp_all add: lib0_def)
  obtain st' where run: "Handle (Suc 0) lib0 None 1 rec0 heapR
             = Some (Inr (Write_error lib0 (out hT)
                 (line_text
                    (if IsZero (rTime rec0) \<and> DropTime (opts hT) then []
                     else Time_Format lib0 (rTime rec0) (TimeFormat (opts hT)))
                    (level_text lib0 (opts hT) (rLevel rec0))
                    (rMessage rec0)
                    (if AddSource (opts hT) \<and> rPC rec0 = 0 then
                       Some (mergePrefWithKey (prefix hT) SourceKey @ ''=''
                               @ value_text lib0 (StringValue (source_text lib0 (rPC rec0))))
                     else None)
                    (slice_bytes heapR (preformatted hT))), st'))"
    and w: "written st' = written heapR @ [(out hT,
                 line_text
                    (if IsZero (rTime rec0) \<and> DropTime (opts hT) then []
                     else Time_Format lib0 (rTime rec0) (TimeFormat (opts hT)))
                    (level_text lib0 (opts hT) (rLevel rec0))
                    (rMessage rec0)
                    (if AddSource (opts hT) \<and> rPC rec0 = 0 then
                       Some (mergePrefWithKey (prefix hT) SourceKey @ ''=''
                               @ value_text lib0 (StringValue (source_text lib0 (rPC rec0))))
                     else None)
                    (slice_bytes heapR (preformatted hT)))]"
    using Handle_line [OF heapR_ok(1) heapR_ok(2) f(2) f(3) rc(2), of 0 lib0 None] by blast
  have L: "line_text
                    (if IsZero (rTime rec0) \<and> DropTime (opts hT) then []
                     else Time_Format lib0 (rTime rec0) (TimeFormat (opts hT)))
                    (level_text lib0 (opts hT) (rLevel rec0))
                    (rMessage rec0)
                    (if AddSource (opts hT) \<and> rPC rec0 = 0 then
                       Some (mergePrefWithKey (prefix hT) SourceKey @ ''=''
                               @ value_text lib0 (StringValue (source_text lib0 (rPC rec0))))
                     else None)
                    (slice_bytes heapR (preformatted hT))
           = ''2023-09-10 20:00:00.000 ERROR msg'' @ [CHR 0x0A]"
    using rc(1) by (simp add: line_text_def join_token_def level_text_def f rc(2-) lv w0 tf)
  have new: "\<exists>rest. written st' = written heapR @ [(out hT,
                join_token
                  (if IsZero (rTime rec0) then []
                   else Time_Format lib0 (rTime rec0) (TimeFormat (opts hT)))
                  (level_text lib0 (opts hT) (rLevel rec0)) @ rest)]"
    using DropTime_by_draft [OF heapR_ok(1), where hp = 1 and h = hT and fuel = "Suc 0"
            and lib = lib0 and pick = None and r = rec0 and st' = st'] heapR_ok(2) f(1) run
    by blast
  obtain st2 line rest where orun: "old_Handle (Suc 0) lib0 None 3 rec0 heapR
                 = Some (Inr (Write_error lib0 (old_out ohT) line, st2))"
    and ow: "written st2 = written heapR @ [(old_out ohT, line)]"
    and ol: "line = level_text lib0 (old_opts ohT) (rLevel rec0) @ rest"
    using DropTime_by_draft [OF heapR_ok(1), where hq = 3 and g = ohT and n = 0
            and lib = lib0 and pick = None and r = rec0 and cz = False]
          heapR_ok(4) g(1) g(2) g(3) rc(2)
    by blast
  obtain st3 where orun3: "old_Handle (Suc 0) lib0 None 3 rec0 heapR
             = Some (Inr (Write_error lib0 (old_out ohT)
                 (line_text
                    (if \<not> IsZero (rTime rec0) \<and> \<not> DropTime (old_opts ohT)
                     then Time_Format lib0 (rTime rec0) (TimeFormat (old_opts ohT)) else [])
                    (level_text lib0 (old_opts ohT) (rLevel rec0))
                    (rMessage rec0)
                    (if AddSource (old_opts ohT) \<and> rPC rec0 \<noteq> 0 then
                       Some (SourceKey @ ''=''
                               @ old_value_text lib0 (StringValue (source_text lib0 (rPC rec0))))
                     else None)
                    (slice_bytes heapR (old_preformatted ohT))), st3))"
    and ow3: "written st3 = written heapR @ [(old_out ohT,
                 line_text
                    (if \<not> IsZero (rTime rec0) \<and> \<not> DropTime (old_opts ohT)
                     then Time_Format lib0 (rTime rec0) (TimeFormat (old_opts ohT)) else [])
                    (level_text lib0 (old_opts ohT) (rLevel rec0))
                    (rMessage rec0)
                    (if AddSource (old_opts ohT) \<and> rPC rec0 \<noteq> 0 then
                       Some (SourceKey @ ''=''
                               @ old_value_text lib0 (StringValue (source_text lib0 (rPC rec0))))
                     else None)
                    (slice_bytes heapR (old_preformatted ohT)))]"
    using old_Handle_line [OF heapR_ok(1) heapR_ok(4) g(2) g(3) rc(2), of 0 lib0 None] by blast
  have OL: "line_text
                    (if \<not> IsZero (rTime rec0) \<and> \<not> DropTime (old_opts ohT)
                     then Time_Format lib0 (rTime rec0) (TimeFormat (old_opts ohT)) else [])
                    (level_text lib0 (old_opts ohT) (rLevel rec0))
                    (rMessage rec0)
                    (if AddSource (old_opts ohT) \<and> rPC rec0 \<noteq> 0 then
                       Some (SourceKey @ ''=''
                               @ old_value_text lib0 (StringValue (source_text lib0 (rPC rec0))))
                     else None)
                    (slice_bytes heapR (old_preformatted ohT))
           = ''ERROR msg'' @ [CHR 0x0A]"
    by (simp add: line_text_def join_token_def level_text_def g rc(2-) lv w0 tf)
  have same: "st2 = st3"
    using orun orun3 by simp
  have n1: "Handle (Suc 0) lib0 None 1 rec0 heapR = Some (Inr (None, st'))"
    "written st' = [(1, ''2023-09-10 20:00:00.000 ERROR msg'' @ [CHR 0x0A])]"
    using run w new unfolding L by (simp_all add: tf w0 f)
  have o1: "old_Handle (Suc 0) lib0 None 3 rec0 heapR = Some (Inr (None, st2))"
    "written st2 = [(1, ''ERROR msg'' @ [CHR 0x0A])]"
    using orun3 ow3 unfolding OL same by (simp_all add: tf w0 g)
  show ?thesis
    using heapR_ok(1) heapR_ok(2) heapR_ok(4) f(1) g(1) g(2) g(3) rc(1) rc(2) n1 o1 by blast
qed

text \<open>
  C4. What \<^verbatim>\<open>Handle\<close> writes for a record without attributes, no rewrite function
  set: the time, the level, the message, the source token, the preformatted attributes.
  The newer draft's \<^verbatim>\<open>appendSource\<close> returns early when \<^verbatim>\<open>AddSource\<close> is off or the
  program counter is \<^emph>\<open>not\<close> zero, so it emits the token exactly when \<^verbatim>\<open>AddSource\<close> is set
  and the program counter is zero, where the claim has none, and none for a program
  counter other than zero, where the claim has one. The older draft emits it exactly when
  \<^verbatim>\<open>AddSource\<close> is set and the program counter is not zero. In both drafts the value
  is the file and the line joined by \<open>=\<close>, not by a colon, and rendered as any string
  value is (quoted, since it holds \<open>=\<close>, in the samples).
\<close>

theorem source_token_by_draft:
  assumes "pool_ok st" and "rAttrs r = []"
  shows "(handler_ok st hp h \<and> Colorize (opts h) = Some cz \<and> ReplaceAttr (opts h) = None \<longrightarrow>
           (\<exists>st'. Handle (Suc n) lib pick hp r st
               = Some (Inr (Write_error lib (out h)
                   (line_text
                      (if IsZero (rTime r) \<and> DropTime (opts h) then []
                       else Time_Format lib (rTime r) (TimeFormat (opts h)))
                      (level_text lib (opts h) (rLevel r))
                      (rMessage r)
                      (if AddSource (opts h) \<and> rPC r = 0 then
                         Some (mergePrefWithKey (prefix h) SourceKey @ ''=''
                                 @ value_text lib (StringValue (source_text lib (rPC r))))
                       else None)
                      (slice_bytes st (preformatted h))), st')) \<and>
              written st' = written st @ [(out h,
                   line_text
                      (if IsZero (rTime r) \<and> DropTime (opts h) then []
                       else Time_Format lib (rTime r) (TimeFormat (opts h)))
                      (level_text lib (opts h) (rLevel r))
                      (rMessage r)
                      (if AddSource (opts h) \<and> rPC r = 0 then
                         Some (mergePrefWithKey (prefix h) SourceKey @ ''=''
                                 @ value_text lib (StringValue (source_text lib (rPC r))))
                       else None)
                      (slice_bytes st (preformatted h)))])) \<and>
         (old_handler_ok st hq g \<and> Colorize (old_opts g) = Some cz \<and>
          ReplaceAttr (old_opts g) = None \<longrightarrow>
           (\<exists>st'. old_Handle (Suc n) lib pick hq r st
               = Some (Inr (Write_error lib (old_out g)
                   (line_text
                      (if \<not> IsZero (rTime r) \<and> \<not> DropTime (old_opts g)
                       then Time_Format lib (rTime r) (TimeFormat (old_opts g)) else [])
                      (level_text lib (old_opts g) (rLevel r))
                      (rMessage r)
                      (if AddSource (old_opts g) \<and> rPC r \<noteq> 0 then
                         Some (SourceKey @ ''=''
                                 @ old_value_text lib (StringValue (source_text lib (rPC r))))
                       else None)
                      (slice_bytes st (old_preformatted g))), st')) \<and>
              written st' = written st @ [(old_out g,
                   line_text
                      (if \<not> IsZero (rTime r) \<and> \<not> DropTime (old_opts g)
                       then Time_Format lib (rTime r) (TimeFormat (old_opts g)) else [])
                      (level_text lib (old_opts g) (rLevel r))
                      (rMessage r)
                      (if AddSource (old_opts g) \<and> rPC r \<noteq> 0 then
                         Some (SourceKey @ ''=''
                                 @ old_value_text lib (StringValue (source_text lib (rPC r))))
                       else None)
                      (slice_bytes st (old_preformatted g)))])) \<and>
         source_text lib pc = Frame_File lib pc @ ''='' @ Itoa (Frame_Line lib pc)"
  using Handle_line [OF assms(1) _ _ _ assms(2), of hp h cz n lib pick]
        old_Handle_line [OF assms(1) _ _ _ assms(2), of hq g cz n lib pick]
  by (simp add: source_text_def)

theorem source_token_by_draft_witness:
  "pool_ok heapR \<and> rAttrs rec0 = [] \<and> rAttrs (rec0\<lparr>rPC := 0\<rparr>) = [] \<and>
   handler_ok heapR 2 hS \<and> Colorize (opts hS) = Some False \<and> ReplaceAttr (opts hS) = None \<and>
   old_handler_ok heapR 4 ohS \<and> Colorize (old_opts ohS) = Some False \<and>
   ReplaceAttr (old_opts ohS) = None \<and>
   AddSource (opts hS) \<and> AddSource (old_opts ohS) \<and> rPC rec0 = 7 \<and>
   (\<exists>st'. Handle (Suc 0) lib0 None 2 rec0 heapR = Some (Inr (None, st')) \<and>
          written st' = [(1, ''2023-09-10 20:00:00.000 ERROR msg'' @ [CHR 0x0A])]) \<and>
   (\<exists>st'. Handle (Suc 0) lib0 None 2 (rec0\<lparr>rPC := 0\<rparr>) heapR = Some (Inr (None, st')) \<and>
          written st' = [(1, ''2023-09-10 20:00:00.000 ERROR msg source=''
                               @ [dquote] @ ''=0'' @ [dquote, CHR 0x0A])]) \<and>
   (\<exists>st'. old_Handle (Suc 0) lib0 None 4 rec0 heapR = Some (Inr (None, st')) \<and>
          written st' = [(1, ''2023-09-10 20:00:00.000 ERROR msg source=''
                               @ [dquote] @ ''main.go=42'' @ [dquote, CHR 0x0A])]) \<and>
   source_text lib0 7 = ''main.go=42''"
proof -
  have f: "Colorize (opts hS) = Some False" "ReplaceAttr (opts hS) = None"
    "out hS = 1" "prefix hS = []" "preformatted hS = nil_slice" "AddSource (opts hS)"
    "StringLevel (opts hS) = None" "DropTime (opts hS) = False"
    by (simp_all add: hS_def h0_def opts0_def zero_Options_def)
  have g: "Colorize (old_opts ohS) = Some False"
    "ReplaceAttr (old_opts ohS) = None" "old_out ohS = 1"
    "old_preformatted ohS = nil_slice" "AddSource (old_opts ohS)"
    "StringLevel (old_opts ohS) = None" "DropTime (old_opts ohS) = False"
    by (simp_all add: ohS_def oh0_def opts0_def zero_Options_def)
  have rc: "IsZero (rTime rec0) = False" "rAttrs rec0 = []" "rMessage rec0 = ''msg''"
    "rLevel rec0 = LevelError" "rPC rec0 = 7"
    by (simp_all add: rec0_def IsZero_def)
  have rz: "rTime (rec0\<lparr>rPC := 0\<rparr>) = rTime rec0" "rAttrs (rec0\<lparr>rPC := 0\<rparr>) = []"
    "rMessage (rec0\<lparr>rPC := 0\<rparr>) = ''msg''" "rLevel (rec0\<lparr>rPC := 0\<rparr>) = LevelError"
    "rPC (rec0\<lparr>rPC := 0\<rparr>) = 0"
    by (simp_all add: rec0_def)
  have lv: "Level_String LevelError = ''ERROR''"
    by (simp add: Level_String_def Level_str_def LevelError_def LevelWarn_def LevelInfo_def)
  have w0: "written heapR = []" "slice_bytes heapR nil_slice = []"
    by (simp_all add: heapR_def heap0_def slice_bytes_def nil_slice_def)
  have tf: "Time_Format lib0 t l = ''2023-09-10 20:00:00.000''" "Write_error lib0 x y = None"
    for t l x y
    by (simp_all add: lib0_def)
  have it: "Itoa 42 = ''42''" "Itoa 0 = ''0''"
    by (simp_all add: Itoa_def dec_nat.simps digit_def)
  have fr: "Frame_File lib0 7 = ''main.go''" "Frame_Line lib0 7 = 42"
    "Frame_File lib0 0 = []" "Frame_Line lib0 0 = 0"
    by (simp_all add: lib0_def)
  have s7: "source_text lib0 7 = ''main.go=42''" and s0: "source_text lib0 0 = ''=0''"
    by (simp_all add: source_text_def fr it)
  have q7: "needsQuoting lib0 ''main.go=42''" and q0: "needsQuoting lib0 ''=0''"
    by (simp_all add: needsQuoting_def byte_of_def RuneSelf_def safeSet_def bslash_def)
  have t7: "quote_from lib0 ''main.go=42'' = ''main.go=42''"
    and t0: "quote_from lib0 ''=0'' = ''=0''"
    by (simp_all add: quote_from_plain byte_of_def dquote_def bslash_def
          del: quote_from.simps(2))
  note thm7 = source_token_by_draft [OF heapR_ok(1) rc(2), where hp = 2 and h = hS
            and cz = False and n = 0 and lib = lib0 and pick = None and hq = 4 and g = ohS
            and pc = 7]
  note thm0 = source_token_by_draft [OF heapR_ok(1) rz(2), where hp = 2 and h = hS
            and cz = False and n = 0 and lib = lib0 and pick = None and hq = 4 and g = ohS
            and pc = 0]
  have n7: "\<exists>st'. Handle (Suc 0) lib0 None 2 rec0 heapR = Some (Inr (None, st')) \<and>
          written st' = [(1, ''2023-09-10 20:00:00.000 ERROR msg'' @ [CHR 0x0A])]"
    using thm7 [THEN conjunct1] heapR_ok(3) f(1) f(2)
    by (simp add: line_text_def join_token_def level_text_def f rc lv w0 tf)
  have n0: "\<exists>st'. Handle (Suc 0) lib0 None 2 (rec0\<lparr>rPC := 0\<rparr>) heapR = Some (Inr (None, st')) \<and>
          written st' = [(1, ''2023-09-10 20:00:00.000 ERROR msg source=''
                               @ [dquote] @ ''=0'' @ [dquote, CHR 0x0A])]"
    using thm0 [THEN conjunct1] heapR_ok(3) f(1) f(2)
    by (simp add: line_text_def join_token_def level_text_def f rc(1) rz lv w0 tf s0 q0
          Quote_def t0 mergePrefWithKey_def SourceKey_def del: quote_from.simps(2))
  have o7: "\<exists>st'. old_Handle (Suc 0) lib0 None 4 rec0 heapR = Some (Inr (None, st')) \<and>
          written st' = [(1, ''2023-09-10 20:00:00.000 ERROR msg source=''
                               @ [dquote] @ ''main.go=42'' @ [dquote, CHR 0x0A])]"
    using thm7 [THEN conjunct2, THEN conjunct1] heapR_ok(5) g(1) g(2)
    by (simp add: line_text_def join_token_def level_text_def g rc lv w0 tf s7 q7
          Quote_def t7 old_value_text_def SourceKey_def del: quote_from.simps(2))
  show ?thesis
    using heapR_ok(1) heapR_ok(3) heapR_ok(5) f(1) f(2) f(6) g(1) g(2) g(5) rc(2) rc(5) rz(2)
          n7 n0 o7 s7
    by blast
qed

end
